theory Spec2Isabelle
  imports Main "HOL-Library.Finite_Map" "HOL-Library.Word"
begin

section \<open>The dynamic type and value system (package cty)\<close>

text \<open>
  The package under verification, \<^verbatim>\<open>ctypb\<close>, builds types and values of the
  library \<^verbatim>\<open>cty\<close>. A cty type is one of the primitive types, the
  pseudo-type \<^verbatim>\<open>cty.DynamicPseudoType\<close>, an object type given by a Go
  \<^verbatim>\<open>map[string]cty.Type\<close> (a finite map), or a list, map or set type
  over an element type. Type equality (\<^verbatim>\<open>Type.Equals\<close>) is structural,
  which is HOL equality on this datatype.
\<close>

datatype cty_type =
    cty_Bool
  | cty_Number
  | cty_String
  | cty_DynamicPseudoType
  | cty_Object "(string, cty_type) fmap"
  | cty_List cty_type
  | cty_Map cty_type
  | cty_Set cty_type

text \<open>
  A cty number is an arbitrary-precision \<^verbatim>\<open>big.Float\<close>: a finite value or
  an infinity. Finite values are kept as rationals, which hold every integer
  and every binary floating-point value exactly.
\<close>

datatype number = NumFinite rat | NumPosInf | NumNegInf

text \<open>
  \<^verbatim>\<open>cty.Value\<close> is the Go struct \<^verbatim>\<open>{ty Type; v interface{}}\<close>: a type
  together with a raw payload. Null is the payload \<^verbatim>\<open>nil\<close>, unknown a
  sentinel; objects and maps hold a \<^verbatim>\<open>map[string]interface{}\<close>, lists a
  slice and sets a set of raw payloads. \<^verbatim>\<open>Value.RawEquals\<close> compares type
  and payload, maps by key and sets by membership: HOL equality on
  \<open>cty_value\<close>.
\<close>

datatype raw =
    RNull
  | RUnknown
  | RBool bool
  | RNumber number
  | RString string
  | RObject "(string, raw) fmap"
  | RList "raw list"
  | RMap "(string, raw) fmap"
  | RSet "raw fset"

datatype cty_value = Value (ty: cty_type) (v: raw)

datatype path_step = GetAttrStep string | IndexStep cty_value

type_synonym path = "path_step list"

section \<open>Descriptors and message instances (package protoreflect)\<close>

text \<open>
  \<^verbatim>\<open>protoreflect.Kind\<close> is an \<^verbatim>\<open>int8\<close> with eighteen named constants;
  \<open>OtherKind n\<close> stands for any other value \<open>n\<close> of that type, which is
  what the \<^verbatim>\<open>default\<close> branches of the source receive.
\<close>

datatype kind =
    BoolKind | EnumKind
  | Int32Kind | Sint32Kind | Uint32Kind
  | Int64Kind | Sint64Kind | Uint64Kind
  | Sfixed32Kind | Fixed32Kind | FloatKind
  | Sfixed64Kind | Fixed64Kind | DoubleKind
  | StringKind | BytesKind | MessageKind | GroupKind
  | OtherKind int

datatype cardinality = Optional | Required | Repeated

datatype enum_value_desc =
  EnumValueDesc (EnumValueName: string) (EnumValueNumber: "32 word")

datatype enum_desc = EnumDesc (Values: "enum_value_desc list")

text \<open>
  A field descriptor answers \<^verbatim>\<open>Name\<close>, \<^verbatim>\<open>Number\<close>, \<^verbatim>\<open>Kind\<close>,
  \<^verbatim>\<open>Cardinality\<close>, \<^verbatim>\<open>HasPresence\<close>, \<^verbatim>\<open>ContainingOneof\<close> (the name
  of the oneof group the field belongs to, if any), \<^verbatim>\<open>Message\<close> and
  \<^verbatim>\<open>Enum\<close> (\<^verbatim>\<open>nil\<close>, here \<open>None\<close>, for the kinds that have none). A message descriptor answers \<^verbatim>\<open>Fields\<close> and \<^verbatim>\<open>IsMapEntry\<close>.
  Descriptors are finite trees: a message type that contains itself by
  value has no such tree, and the recursion of the source does not return
  on it.
\<close>

datatype field_desc =
  FieldDesc (Name: string) (FieldNumber: int) (Kind: kind)
    (Cardinality: cardinality) (HasPresence: bool)
    (ContainingOneof: "string option")
    (Message: "message_desc option") (Enum: "enum_desc option")
and message_desc =
  MessageDesc (Fields: "field_desc list") (IsMapEntry: bool)

text \<open>
  The results of a Go function returning \<^verbatim>\<open>(T, error)\<close>: \<open>Inr\<close> a
  value or \<open>Inl\<close> an error. \<open>PathError p f args\<close> is the error of
  \<^verbatim>\<open>p.NewErrorf(f, args...)\<close>, which copies the path; the format string and
  its arguments are kept apart instead of being rendered. \<open>Panic\<close> is a
  Go run-time panic (a method call on a \<^verbatim>\<open>nil\<close> descriptor, a
  \<^verbatim>\<open>protoreflect.Value\<close> accessor of the wrong type, a cty constructor
  refusing its arguments). \<open>Unrendered\<close> stands for the one place where the
  source returns a value that is not computed here: \<^verbatim>\<open>Value.String\<close> on
  a value that is not a string returns its \<^verbatim>\<open>fmt.Sprint\<close> rendering.
\<close>

datatype fmt_arg = ArgInt int | ArgKind kind

datatype error = PathError path string "fmt_arg list" | Panic | Unrendered

type_synonym 'a result = "error + 'a"

fun ByNumber :: "field_desc list \<Rightarrow> int \<Rightarrow> field_desc option" where
  "ByNumber [] n = None"
| "ByNumber (f # fs) n = (if FieldNumber f = n then Some f else ByNumber fs n)"

fun EnumByNumber :: "enum_value_desc list \<Rightarrow> 32 word \<Rightarrow> enum_value_desc option" where
  "EnumByNumber [] n = None"
| "EnumByNumber (d # ds) n =
     (if EnumValueNumber d = n then Some d else EnumByNumber ds n)"

text \<open>
  \<^verbatim>\<open>FieldDescriptor.IsMap\<close> and \<^verbatim>\<open>IsList\<close>, as protoreflect documents
  them: a map field is a repeated field of message kind whose message is a
  map entry; a list field is any other repeated field.
\<close>

definition IsMap :: "field_desc \<Rightarrow> bool" where
  "IsMap fd \<longleftrightarrow>
     Cardinality fd = Repeated \<and> Kind fd = MessageKind \<and>
     (case Message fd of None \<Rightarrow> False | Some sub \<Rightarrow> IsMapEntry sub)"

definition IsList :: "field_desc \<Rightarrow> bool" where
  "IsList fd \<longleftrightarrow> Cardinality fd = Repeated \<and> \<not> IsMap fd"

section \<open>Constructors of cty values\<close>

definition NullVal :: "cty_type \<Rightarrow> cty_value" where
  "NullVal t = Value t RNull"

definition UnknownVal :: "cty_type \<Rightarrow> cty_value" where
  "UnknownVal t = Value t RUnknown"

definition DynamicVal :: cty_value where
  "DynamicVal = Value cty_DynamicPseudoType RUnknown"

definition cty_True :: cty_value where
  "cty_True = Value cty_Bool (RBool True)"

definition cty_False :: cty_value where
  "cty_False = Value cty_Bool (RBool False)"

text \<open>
  \<^verbatim>\<open>NumberIntVal(int64)\<close> and \<^verbatim>\<open>NumberUIntVal(uint64)\<close> go through
  \<^verbatim>\<open>big.Float.SetInt64\<close> and \<^verbatim>\<open>SetUint64\<close>, which are exact.
\<close>

definition NumberIntVal :: "64 word \<Rightarrow> cty_value" where
  "NumberIntVal n = Value cty_Number (RNumber (NumFinite (of_int (sint n))))"

definition NumberUIntVal :: "64 word \<Rightarrow> cty_value" where
  "NumberUIntVal n = Value cty_Number (RNumber (NumFinite (of_int (uint n))))"

text \<open>
  A Go \<^verbatim>\<open>float64\<close>, by the value it denotes. \<^verbatim>\<open>NumberFloatVal\<close> goes
  through \<^verbatim>\<open>big.Float.SetFloat64\<close>, which panics on a NaN.
\<close>

datatype float64 = FloatFinite rat | FloatPosInf | FloatNegInf | FloatNaN

definition NumberFloatVal :: "float64 \<Rightarrow> cty_value result" where
  "NumberFloatVal x =
     (case x of
        FloatFinite q \<Rightarrow> Inr (Value cty_Number (RNumber (NumFinite q)))
      | FloatPosInf \<Rightarrow> Inr (Value cty_Number (RNumber NumPosInf))
      | FloatNegInf \<Rightarrow> Inr (Value cty_Number (RNumber NumNegInf))
      | FloatNaN \<Rightarrow> Inl Panic)"

definition StringVal :: "string \<Rightarrow> cty_value" where
  "StringVal s = Value cty_String (RString s)"

definition ObjectVal :: "(string, cty_value) fmap \<Rightarrow> cty_value" where
  "ObjectVal attrs = Value (cty_Object (fmmap ty attrs)) (RObject (fmmap v attrs))"

text \<open>
  \<^verbatim>\<open>ListVal\<close>, \<^verbatim>\<open>SetVal\<close> and \<^verbatim>\<open>MapVal\<close> panic on an empty
  argument and on elements of inconsistent types. Their loop starts from
  \<^verbatim>\<open>DynamicPseudoType\<close>, takes the first other type it meets and panics
  at an element of a different type that is not \<^verbatim>\<open>DynamicPseudoType\<close>.
\<close>

fun elementType :: "cty_type \<Rightarrow> cty_value list \<Rightarrow> cty_type option" where
  "elementType et [] = Some et"
| "elementType et (val # vals) =
     (if et = cty_DynamicPseudoType then elementType (ty val) vals
      else if ty val \<noteq> cty_DynamicPseudoType \<and> et \<noteq> ty val then None
      else elementType et vals)"

definition ListVal :: "cty_value list \<Rightarrow> cty_value result" where
  "ListVal vals =
     (if vals = [] then Inl Panic
      else case elementType cty_DynamicPseudoType vals of
             None \<Rightarrow> Inl Panic
           | Some et \<Rightarrow> Inr (Value (cty_List et) (RList (map v vals))))"

definition ListValEmpty :: "cty_type \<Rightarrow> cty_value" where
  "ListValEmpty et = Value (cty_List et) (RList [])"

definition SetVal :: "cty_value list \<Rightarrow> cty_value result" where
  "SetVal vals =
     (if vals = [] then Inl Panic
      else case elementType cty_DynamicPseudoType vals of
             None \<Rightarrow> Inl Panic
           | Some et \<Rightarrow> Inr (Value (cty_Set et) (RSet (fset_of_list (map v vals)))))"

definition SetValEmpty :: "cty_type \<Rightarrow> cty_value" where
  "SetValEmpty et = Value (cty_Set et) (RSet {||})"

text \<open>
  \<^verbatim>\<open>MapVal\<close> runs the same loop over a Go map, in an unspecified order.
  Its outcome does not depend on the order: it panics exactly when two
  element types other than \<^verbatim>\<open>DynamicPseudoType\<close> differ.
\<close>

definition MapVal :: "(string, cty_value) fmap \<Rightarrow> cty_value result" where
  "MapVal vals =
     (if vals = fmempty then Inl Panic
      else
        (let tys = ffilter (\<lambda>t. t \<noteq> cty_DynamicPseudoType) (ty |`| fmran vals) in
         if tys = {||} then
           Inr (Value (cty_Map cty_DynamicPseudoType) (RMap (fmmap v vals)))
         else if fcard tys = 1 then
           Inr (Value (cty_Map (fthe_elem tys)) (RMap (fmmap v vals)))
         else Inl Panic))"

definition MapValEmpty :: "cty_type \<Rightarrow> cty_value" where
  "MapValEmpty et = Value (cty_Map et) (RMap fmempty)"

section \<open>The type deriver (implied\_type.go)\<close>

lemma ByNumber_size [termination_simp]:
  "ByNumber fs n = Some f \<Longrightarrow> size f < Suc (size_list size fs)"
  by (induction fs) (auto split: if_splits)

lemma size_Fields: "size_list size (Fields desc) < size desc"
  by (cases desc) simp

lemma size_Message: "Message field = Some sub \<Longrightarrow> size sub < size field"
  by (cases field) simp

lemma ByNumber_Fields_size:
  "ByNumber (Fields sub) n = Some f \<Longrightarrow> Message field = Some sub \<Longrightarrow> size f < size field"
  using ByNumber_size [of "Fields sub" n f] size_Message [of field sub]
  by (cases sub) simp

function
  impliedTypeForMessageDesc :: "message_desc \<Rightarrow> path \<Rightarrow> cty_type result" and
  impliedTypeForMessageDesc_loop ::
    "field_desc list \<Rightarrow> path \<Rightarrow> (string, cty_type) fmap \<Rightarrow> cty_type result" and
  impliedTypeForFieldDesc :: "field_desc \<Rightarrow> path \<Rightarrow> cty_type result" and
  impliedTypeForFieldKind :: "field_desc \<Rightarrow> path \<Rightarrow> cty_type result"
where
  "impliedTypeForMessageDesc desc path =
     impliedTypeForMessageDesc_loop (Fields desc) path fmempty"
| "impliedTypeForMessageDesc_loop [] path atys = Inr (cty_Object atys)"
| "impliedTypeForMessageDesc_loop (field # rest) path atys =
     (case impliedTypeForFieldDesc field (path @ [GetAttrStep (Name field)]) of
        Inl err \<Rightarrow> Inl err
      | Inr aty \<Rightarrow>
          impliedTypeForMessageDesc_loop rest path (fmupd (Name field) aty atys))"
| "impliedTypeForFieldDesc field path =
     (if Cardinality field = Repeated \<and> Kind field = MessageKind then
        (case Message field of
           None \<Rightarrow> Inl Panic
         | Some sub \<Rightarrow>
             if IsMapEntry sub then
               (case ByNumber (Fields sub) 1 of
                  None \<Rightarrow> Inl Panic
                | Some keyField \<Rightarrow>
                    if Kind keyField = StringKind then
                      (case ByNumber (Fields sub) 2 of
                         None \<Rightarrow> Inl Panic
                       | Some valField \<Rightarrow>
                           (case impliedTypeForFieldDesc valField
                                   (path @ [IndexStep (UnknownVal cty_String)]) of
                              Inl err \<Rightarrow> Inl err
                            | Inr valTy \<Rightarrow> Inr (cty_Map valTy)))
                    else
                      (case impliedTypeForFieldDesc keyField path of
                         Inl err \<Rightarrow> Inl err
                       | Inr keyTy \<Rightarrow>
                           (case ByNumber (Fields sub) 2 of
                              None \<Rightarrow> Inl Panic
                            | Some valField \<Rightarrow>
                                (case impliedTypeForFieldDesc valField
                                        (path @ [IndexStep (UnknownVal keyTy)]) of
                                   Inl err \<Rightarrow> Inl err
                                 | Inr valTy \<Rightarrow>
                                     Inr (cty_Set (cty_Object
                                       (fmupd ''value'' valTy
                                         (fmupd ''key'' keyTy fmempty))))))))
             else
               (case impliedTypeForFieldKind field path of
                  Inl err \<Rightarrow> Inl err
                | Inr aty \<Rightarrow> Inr (cty_List aty)))
      else
        (case impliedTypeForFieldKind field path of
           Inl err \<Rightarrow> Inl err
         | Inr aty \<Rightarrow>
             if Cardinality field = Repeated then Inr (cty_List aty) else Inr aty))"
| "impliedTypeForFieldKind field path =
     (if Kind field = BoolKind then Inr cty_Bool
      else if Kind field \<in> {Int32Kind, Sint32Kind, Uint32Kind, Int64Kind, Sint64Kind,
                Uint64Kind, Sfixed32Kind, Fixed32Kind, FloatKind, Sfixed64Kind,
                Fixed64Kind, DoubleKind} then Inr cty_Number
      else if Kind field \<in> {StringKind, BytesKind, EnumKind} then Inr cty_String
      else if Kind field \<in> {MessageKind, GroupKind} then
        (case Message field of
           None \<Rightarrow> Inl Panic
         | Some sub \<Rightarrow> impliedTypeForMessageDesc sub path)
      else
        Inl (PathError path ''no cty equivalent for protobuf kind %s''
               [ArgKind (Kind field)]))"
  by pat_completeness auto
termination
  by (relation "measure (\<lambda>x. case x of
        Inl (Inl (desc, path)) \<Rightarrow> 2 * size desc + 1
      | Inl (Inr (fields, path, atys)) \<Rightarrow> 2 * size_list size fields + 1
      | Inr (Inl (field, path)) \<Rightarrow> 2 * size field + 1
      | Inr (Inr (field, path)) \<Rightarrow> 2 * size field)")
     (auto dest: ByNumber_Fields_size size_Message simp: size_Fields)

definition ImpliedTypeForMessageDesc :: "message_desc \<Rightarrow> cty_type result" where
  "ImpliedTypeForMessageDesc desc = impliedTypeForMessageDesc desc []"


section \<open>Standard Base64 (encoding/base64, StdEncoding)\<close>

definition encodeStd :: string where
  "encodeStd = ''ABCDEFGHIJKLMNOPQRSTUVWXYZabcdefghijklmnopqrstuvwxyz0123456789+/''"

definition enc6 :: "nat \<Rightarrow> char" where
  "enc6 n = encodeStd ! (n mod 64)"

fun EncodeToString :: "8 word list \<Rightarrow> string" where
  "EncodeToString (b0 # b1 # b2 # rest) =
     (let val = unat b0 * 65536 + unat b1 * 256 + unat b2 in
      enc6 (val div 262144) # enc6 (val div 4096) # enc6 (val div 64) # enc6 val
        # EncodeToString rest)"
| "EncodeToString [b0, b1] =
     (let val = unat b0 * 65536 + unat b1 * 256 in
      [enc6 (val div 262144), enc6 (val div 4096), enc6 (val div 64), CHR ''='']) "
| "EncodeToString [b0] =
     (let val = unat b0 * 65536 in
      [enc6 (val div 262144), enc6 (val div 4096), CHR ''='', CHR ''=''])"
| "EncodeToString [] = []"


section \<open>Message instances\<close>

text \<open>
  A \<^verbatim>\<open>protoreflect.MapKey\<close> holds a boolean, an integer or a string; a
  \<^verbatim>\<open>protoreflect.Value\<close> holds a scalar of one of the Go types below, a
  message, a list or a map, or is the invalid zero \<^verbatim>\<open>Value\<close>. The entries
  of a map are listed in the order in which \<^verbatim>\<open>Map.Range\<close> visits them,
  an order the runtime does not specify. A message is its descriptor and
  its populated fields, by field number.
\<close>

datatype mapkey =
    KBool bool
  | KInt32 "32 word" | KInt64 "64 word"
  | KUint32 "32 word" | KUint64 "64 word"
  | KString string

datatype pvalue =
    PInvalid
  | PBool bool
  | PInt32 "32 word" | PInt64 "64 word"
  | PUint32 "32 word" | PUint64 "64 word"
  | PFloat32 float64 | PFloat64 float64
  | PString string
  | PBytes "8 word list"
  | PEnum "32 word"
  | PMessage message
  | PList "pvalue list"
  | PMap "(mapkey \<times> pvalue) list"
and message =
  Msg (Descriptor: message_desc) (Populated: "(int \<times> pvalue) list")

text \<open>
  The typed accessors of \<^verbatim>\<open>protoreflect.Value\<close> panic (\<open>None\<close>) on a
  value of another type. \<^verbatim>\<open>Int\<close> and \<^verbatim>\<open>Uint\<close> widen a 32-bit value
  to 64 bits. \<^verbatim>\<open>String\<close> does not panic: on a value that is not a string
  it returns a rendering, which is \<open>None\<close> here and \<open>Unrendered\<close> in the
  callers.
\<close>

definition Value_Bool :: "pvalue \<Rightarrow> bool option" where
  "Value_Bool x = (case x of PBool b \<Rightarrow> Some b | _ \<Rightarrow> None)"

definition Value_Int :: "pvalue \<Rightarrow> 64 word option" where
  "Value_Int x = (case x of PInt32 n \<Rightarrow> Some (scast n) | PInt64 n \<Rightarrow> Some n | _ \<Rightarrow> None)"

definition Value_Uint :: "pvalue \<Rightarrow> 64 word option" where
  "Value_Uint x = (case x of PUint32 n \<Rightarrow> Some (ucast n) | PUint64 n \<Rightarrow> Some n | _ \<Rightarrow> None)"

definition Value_Float :: "pvalue \<Rightarrow> float64 option" where
  "Value_Float x = (case x of PFloat32 f \<Rightarrow> Some f | PFloat64 f \<Rightarrow> Some f | _ \<Rightarrow> None)"

definition Value_String :: "pvalue \<Rightarrow> string option" where
  "Value_String x = (case x of PString s \<Rightarrow> Some s | _ \<Rightarrow> None)"

definition Value_Bytes :: "pvalue \<Rightarrow> 8 word list option" where
  "Value_Bytes x = (case x of PBytes bs \<Rightarrow> Some bs | _ \<Rightarrow> None)"

definition Value_Enum :: "pvalue \<Rightarrow> 32 word option" where
  "Value_Enum x = (case x of PEnum n \<Rightarrow> Some n | _ \<Rightarrow> None)"

definition Value_Message :: "pvalue \<Rightarrow> message option" where
  "Value_Message x = (case x of PMessage m \<Rightarrow> Some m | _ \<Rightarrow> None)"

definition Value_List :: "pvalue \<Rightarrow> pvalue list option" where
  "Value_List x = (case x of PList xs \<Rightarrow> Some xs | _ \<Rightarrow> None)"

definition Value_Map :: "pvalue \<Rightarrow> (mapkey \<times> pvalue) list option" where
  "Value_Map x = (case x of PMap es \<Rightarrow> Some es | _ \<Rightarrow> None)"

definition MapKey_String :: "mapkey \<Rightarrow> string option" where
  "MapKey_String k = (case k of KString s \<Rightarrow> Some s | _ \<Rightarrow> None)"

definition MapKey_Value :: "mapkey \<Rightarrow> pvalue" where
  "MapKey_Value k =
     (case k of
        KBool b \<Rightarrow> PBool b
      | KInt32 n \<Rightarrow> PInt32 n | KInt64 n \<Rightarrow> PInt64 n
      | KUint32 n \<Rightarrow> PUint32 n | KUint64 n \<Rightarrow> PUint64 n
      | KString s \<Rightarrow> PString s)"

text \<open>
  \<^verbatim>\<open>Message.Has\<close> of a field with presence tracking: the field is
  populated. (The source asks it of no other field.) \<^verbatim>\<open>Message.Get\<close>
  returns the stored value of a populated field and otherwise the default:
  an empty map, list or message, or the zero value of a scalar. A field
  that may declare another default tracks presence, and the source never
  reads such a field while it is unpopulated.
\<close>

definition Has :: "message \<Rightarrow> field_desc \<Rightarrow> bool" where
  "Has msg fd \<longleftrightarrow> map_of (Populated msg) (FieldNumber fd) \<noteq> None"

definition Default :: "field_desc \<Rightarrow> pvalue" where
  "Default fd =
     (if IsMap fd then PMap []
      else if IsList fd then PList []
      else if Kind fd = BoolKind then PBool False
      else if Kind fd \<in> {Int32Kind, Sint32Kind, Sfixed32Kind} then PInt32 0
      else if Kind fd \<in> {Int64Kind, Sint64Kind, Sfixed64Kind} then PInt64 0
      else if Kind fd \<in> {Uint32Kind, Fixed32Kind} then PUint32 0
      else if Kind fd \<in> {Uint64Kind, Fixed64Kind} then PUint64 0
      else if Kind fd = FloatKind then PFloat32 (FloatFinite 0)
      else if Kind fd = DoubleKind then PFloat64 (FloatFinite 0)
      else if Kind fd = StringKind then PString []
      else if Kind fd = BytesKind then PBytes []
      else if Kind fd = EnumKind then PEnum 0
      else if Kind fd \<in> {MessageKind, GroupKind} then
        (case Message fd of None \<Rightarrow> PInvalid | Some sub \<Rightarrow> PMessage (Msg sub []))
      else PInvalid)"

definition Get :: "message \<Rightarrow> field_desc \<Rightarrow> pvalue" where
  "Get msg fd =
     (case map_of (Populated msg) (FieldNumber fd) of
        Some x \<Rightarrow> x
      | None \<Rightarrow> Default fd)"

section \<open>The value encoder (from\_pb\_msg.go)\<close>

text \<open>
  The encoder recurses on the message instance, except that the value it
  reads from an unpopulated field is a default built from the descriptor.
  The weight below counts both, and decreases along every call.
\<close>

primrec weight :: "pvalue \<Rightarrow> nat" and weight_message :: "message \<Rightarrow> nat" where
  "weight PInvalid = 0"
| "weight (PBool b) = 0"
| "weight (PInt32 n) = 0"
| "weight (PInt64 n) = 0"
| "weight (PUint32 n) = 0"
| "weight (PUint64 n) = 0"
| "weight (PFloat32 x) = 0"
| "weight (PFloat64 x) = 0"
| "weight (PString s) = 0"
| "weight (PBytes bs) = 0"
| "weight (PEnum n) = 0"
| "weight (PMessage m) = Suc (weight_message m)"
| "weight (PList xs) = Suc (sum_list (map Suc (map weight xs)))"
| "weight (PMap es) = Suc (sum_list (map (\<lambda>e. Suc (Suc (snd e))) (map (map_prod id weight) es)))"
| "weight_message (Msg d pop) = size d + sum_list (map snd (map (map_prod id weight) pop))"

lemma weight_Default: "weight (Default fd) \<le> size fd"
  apply (cases fd)
  apply (auto simp: Default_def split: option.splits)
  done

lemma weight_map_of:
  "map_of pop k = Some x \<Longrightarrow> weight x \<le> sum_list (map snd (map (map_prod id weight) pop))"
  by (induction pop) (auto split: if_splits)

lemma weight_Get:
  "weight (Get msg fd) \<le> size fd + sum_list (map snd (map (map_prod id weight) (Populated msg)))"
  using weight_Default [of fd]
  by (auto simp: Get_def split: option.splits dest: weight_map_of)


definition populated_weight :: "message \<Rightarrow> nat" where
  "populated_weight msg = sum_list (map snd (map (map_prod id weight) (Populated msg)))"

definition entries_weight :: "(mapkey \<times> pvalue) list \<Rightarrow> nat" where
  "entries_weight es = sum_list (map (\<lambda>e. Suc (Suc (snd e))) (map (map_prod id weight) es))"

definition elems_weight :: "pvalue list \<Rightarrow> nat" where
  "elems_weight xs = sum_list (map Suc (map weight xs))"


lemma weight_message_eq:
  "weight_message msg = size (Descriptor msg) + populated_weight msg"
  by (cases msg) (simp add: populated_weight_def)

lemma weight_Get_le: "weight (Get msg fd) \<le> size fd + populated_weight msg"
  using weight_Get [of msg fd] by (simp add: populated_weight_def)

lemma Value_Map_weight: "Value_Map rawV = Some es \<Longrightarrow> weight rawV = Suc (entries_weight es)"
  by (cases rawV) (simp_all add: Value_Map_def entries_weight_def)

lemma Value_List_weight: "Value_List rawV = Some xs \<Longrightarrow> weight rawV = Suc (elems_weight xs)"
  by (cases rawV) (simp_all add: Value_List_def elems_weight_def)

lemma Value_Message_weight:
  "Value_Message rawV = Some sub \<Longrightarrow> weight rawV = Suc (weight_message sub)"
  by (cases rawV) (simp_all add: Value_Message_def)

lemma weight_MapKey_Value: "weight (MapKey_Value k) = 0"
  by (cases k) (simp_all add: MapKey_Value_def)

lemma entries_weight_Cons:
  "entries_weight ((k, x) # es) = Suc (Suc (weight x)) + entries_weight es"
  by (simp add: entries_weight_def)

lemma elems_weight_Cons: "elems_weight (x # xs) = Suc (weight x) + elems_weight xs"
  by (simp add: elems_weight_def)

function
  fromProtobufMessage :: "message \<Rightarrow> path \<Rightarrow> cty_value result" and
  fromProtobufMessage_loop ::
    "message \<Rightarrow> field_desc list \<Rightarrow> path \<Rightarrow> (string, cty_value) fmap \<Rightarrow> cty_value result" and
  fromProtobufFieldValue :: "pvalue \<Rightarrow> field_desc \<Rightarrow> path \<Rightarrow> cty_value result" and
  fromProtobufFieldValue_stringRange ::
    "(mapkey \<times> pvalue) list \<Rightarrow> field_desc option \<Rightarrow> path \<Rightarrow> (string, cty_value) fmap
       \<Rightarrow> (string, cty_value) fmap result" and
  fromProtobufFieldValue_otherRange ::
    "(mapkey \<times> pvalue) list \<Rightarrow> field_desc \<Rightarrow> field_desc option \<Rightarrow> path \<Rightarrow> cty_value list
       \<Rightarrow> cty_value list result" and
  fromProtobufFieldValue_listLoop ::
    "pvalue list \<Rightarrow> nat \<Rightarrow> field_desc \<Rightarrow> path \<Rightarrow> cty_value list \<Rightarrow> cty_value list result" and
  fromProtobufFieldKindValue :: "pvalue \<Rightarrow> field_desc \<Rightarrow> path \<Rightarrow> cty_value result"
where
  "fromProtobufMessage msg path =
     fromProtobufMessage_loop msg (Fields (Descriptor msg)) path fmempty"
| "fromProtobufMessage_loop msg [] path attrs = Inr (ObjectVal attrs)"
| "fromProtobufMessage_loop msg (field # rest) path attrs =
     (if HasPresence field \<and> \<not> Has msg field then
        (case impliedTypeForFieldDesc field (path @ [GetAttrStep (Name field)]) of
           Inl err \<Rightarrow> Inl err
         | Inr aty \<Rightarrow>
             fromProtobufMessage_loop msg rest path (fmupd (Name field) (NullVal aty) attrs))
      else
        (case fromProtobufFieldValue (Get msg field) field
                (path @ [GetAttrStep (Name field)]) of
           Inl err \<Rightarrow> Inl err
         | Inr val \<Rightarrow>
             fromProtobufMessage_loop msg rest path (fmupd (Name field) val attrs)))"
| "fromProtobufFieldValue rawV field path =
     (if IsMap field then
        (case Message field of
           None \<Rightarrow> Inl Panic
         | Some subDesc \<Rightarrow>
             (case Value_Map rawV of
                None \<Rightarrow> Inl Panic
              | Some rawMap \<Rightarrow>
                  (case ByNumber (Fields subDesc) 1 of
                     None \<Rightarrow> Inl Panic
                   | Some keyField \<Rightarrow>
                       if Kind keyField = StringKind then
                         (case fromProtobufFieldValue_stringRange rawMap
                                 (ByNumber (Fields subDesc) 2) path fmempty of
                            Inl err \<Rightarrow> Inl err
                          | Inr elems \<Rightarrow>
                              if elems = fmempty then
                                (case ByNumber (Fields subDesc) 2 of
                                   None \<Rightarrow> Inl Panic
                                 | Some valField \<Rightarrow>
                                     (case impliedTypeForFieldDesc valField
                                             (path @ [IndexStep (UnknownVal cty_String)]) of
                                        Inl err \<Rightarrow> Inl err
                                      | Inr ety \<Rightarrow> Inr (MapValEmpty ety)))
                              else MapVal elems)
                       else
                         (case fromProtobufFieldValue_otherRange rawMap keyField
                                 (ByNumber (Fields subDesc) 2) path [] of
                            Inl err \<Rightarrow> Inl err
                          | Inr elems \<Rightarrow>
                              if elems = [] then
                                (case impliedTypeForFieldDesc keyField
                                        (path @ [IndexStep DynamicVal]) of
                                   Inl err \<Rightarrow> Inl err
                                 | Inr keyTy \<Rightarrow>
                                     (case ByNumber (Fields subDesc) 2 of
                                        None \<Rightarrow> Inl Panic
                                      | Some valField \<Rightarrow>
                                          (case impliedTypeForFieldDesc valField
                                                  (path @ [IndexStep DynamicVal]) of
                                             Inl err \<Rightarrow> Inl err
                                           | Inr valTy \<Rightarrow>
                                               Inr (SetValEmpty (cty_Object
                                                 (fmupd ''value'' valTy
                                                   (fmupd ''key'' keyTy fmempty)))))))
                              else SetVal elems))))
      else if IsList field then
        (case Value_List rawV of
           None \<Rightarrow> Inl Panic
         | Some rawList \<Rightarrow>
             (case fromProtobufFieldValue_listLoop rawList 0 field path [] of
                Inl err \<Rightarrow> Inl err
              | Inr elems \<Rightarrow>
                  if elems = [] then
                    (case impliedTypeForFieldKind field
                            (path @ [IndexStep (UnknownVal cty_Number)]) of
                       Inl err \<Rightarrow> Inl err
                     | Inr ety \<Rightarrow> Inr (ListValEmpty ety))
                  else ListVal elems))
      else fromProtobufFieldKindValue rawV field path)"
| "fromProtobufFieldValue_stringRange [] valField path elems = Inr elems"
| "fromProtobufFieldValue_stringRange ((rawK, rawV) # rest) valField path elems =
     (case valField of
        None \<Rightarrow> Inl Panic
      | Some valField' \<Rightarrow>
          (case MapKey_String rawK of
             None \<Rightarrow> Inl Unrendered
           | Some key \<Rightarrow>
               (case fromProtobufFieldValue rawV valField'
                       (path @ [IndexStep (StringVal key)]) of
                  Inl thisErr \<Rightarrow> Inl thisErr
                | Inr ev \<Rightarrow>
                    fromProtobufFieldValue_stringRange rest valField path
                      (fmupd key ev elems))))"
| "fromProtobufFieldValue_otherRange [] keyField valField path elems = Inr elems"
| "fromProtobufFieldValue_otherRange ((rawK, rawV) # rest) keyField valField path elems =
     (case fromProtobufFieldValue (MapKey_Value rawK) keyField
             (path @ [IndexStep DynamicVal]) of
        Inl thisErr \<Rightarrow> Inl thisErr
      | Inr ek \<Rightarrow>
          (case valField of
             None \<Rightarrow> Inl Panic
           | Some valField' \<Rightarrow>
               (case fromProtobufFieldValue rawV valField'
                       (path @ [IndexStep DynamicVal]) of
                  Inl thisErr \<Rightarrow> Inl thisErr
                | Inr ev \<Rightarrow>
                    fromProtobufFieldValue_otherRange rest keyField valField path
                      (elems @ [ObjectVal (fmupd ''value'' ev (fmupd ''key'' ek fmempty))]))))"
| "fromProtobufFieldValue_listLoop [] i field path elems = Inr elems"
| "fromProtobufFieldValue_listLoop (rawEV # rest) i field path elems =
     (case fromProtobufFieldKindValue rawEV field
             (path @ [IndexStep (NumberIntVal (of_nat i))]) of
        Inl err \<Rightarrow> Inl err
      | Inr ev \<Rightarrow> fromProtobufFieldValue_listLoop rest (Suc i) field path (elems @ [ev]))"
| "fromProtobufFieldKindValue rawV field path =
     (if Kind field = BoolKind then
        (case Value_Bool rawV of
           None \<Rightarrow> Inl Panic
         | Some b \<Rightarrow> if b then Inr cty_True else Inr cty_False)
      else if Kind field \<in> {Int32Kind, Sint32Kind, Sfixed32Kind, Int64Kind, Sint64Kind,
                Sfixed64Kind} then
        (case Value_Int rawV of None \<Rightarrow> Inl Panic | Some n \<Rightarrow> Inr (NumberIntVal n))
      else if Kind field \<in> {Uint32Kind, Fixed32Kind, Uint64Kind, Fixed64Kind} then
        (case Value_Uint rawV of None \<Rightarrow> Inl Panic | Some n \<Rightarrow> Inr (NumberUIntVal n))
      else if Kind field \<in> {FloatKind, DoubleKind} then
        (case Value_Float rawV of None \<Rightarrow> Inl Panic | Some x \<Rightarrow> NumberFloatVal x)
      else if Kind field = StringKind then
        (case Value_String rawV of None \<Rightarrow> Inl Unrendered | Some s \<Rightarrow> Inr (StringVal s))
      else if Kind field = BytesKind then
        (case Value_Bytes rawV of
           None \<Rightarrow> Inl Panic
         | Some bs \<Rightarrow> Inr (StringVal (EncodeToString bs)))
      else if Kind field = EnumKind then
        (case Value_Enum rawV of
           None \<Rightarrow> Inl Panic
         | Some num \<Rightarrow>
             (case Enum field of
                None \<Rightarrow> Inl Panic
              | Some enum \<Rightarrow>
                  (case EnumByNumber (Values enum) num of
                     None \<Rightarrow>
                       Inl (PathError path ''value %d is not part of the enumeration''
                              [ArgInt (sint num)])
                   | Some desc \<Rightarrow> Inr (StringVal (EnumValueName desc)))))
      else if Kind field \<in> {MessageKind, GroupKind} then
        (case Value_Message rawV of
           None \<Rightarrow> Inl Panic
         | Some sub \<Rightarrow> fromProtobufMessage sub path)
      else
        Inl (PathError path ''no cty equivalent for protobuf kind %s''
               [ArgKind (Kind field)]))"
  by pat_completeness auto
termination
  apply (relation "measure (\<lambda>x. case x of
        Inl (Inl (msg, path)) \<Rightarrow> 4 * weight_message msg + 3
      | Inl (Inr (Inl (msg, fields, path, attrs))) \<Rightarrow>
          4 * (size_list size fields + populated_weight msg) + 2
      | Inl (Inr (Inr (rawV, field, path))) \<Rightarrow> 4 * weight rawV + 1
      | Inr (Inl (Inl (es, valField, path, elems))) \<Rightarrow> 4 * entries_weight es + 2
      | Inr (Inl (Inr (es, keyField, valField, path, elems))) \<Rightarrow> 4 * entries_weight es + 2
      | Inr (Inr (Inl (xs, i, field, path, elems))) \<Rightarrow> 4 * elems_weight xs + 2
      | Inr (Inr (Inr (rawV, field, path))) \<Rightarrow> 4 * weight rawV)")
  apply (auto simp: weight_message_eq Value_Map_weight Value_List_weight Value_Message_weight
      weight_MapKey_Value entries_weight_Cons elems_weight_Cons)
  subgoal for msg using size_Fields [of "Descriptor msg"] by simp
  subgoal for msg field rest using weight_Get_le [of msg field] by simp
  subgoal for msg field rest using weight_Get_le [of msg field] by simp
  done


definition FromProtobufMessage :: "message \<Rightarrow> cty_value result" where
  "FromProtobufMessage msg = fromProtobufMessage msg []"


section \<open>Notions used in the statements\<close>

text \<open>The singular form of a field: the same field with cardinality optional.\<close>

definition singular :: "field_desc \<Rightarrow> field_desc" where
  "singular fd =
     FieldDesc (Name fd) (FieldNumber fd) (Kind fd) Optional (HasPresence fd)
       (ContainingOneof fd) (Message fd) (Enum fd)"

text \<open>A descriptor with every membership in a oneof group erased.\<close>

primrec withoutOneofs_field :: "field_desc \<Rightarrow> field_desc"
  and withoutOneofs :: "message_desc \<Rightarrow> message_desc" where
  "withoutOneofs_field (FieldDesc name n k c p oneof m e) =
     FieldDesc name n k c p None (map_option withoutOneofs m) e"
| "withoutOneofs (MessageDesc fs b) = MessageDesc (map withoutOneofs_field fs) b"


text \<open>
  The kinds the deriver has a type for, the attribute names along a path,
  and the descriptors the runtime can hand out: a field has a message
  descriptor exactly when its kind is message or group, and the entry
  message of a map field has the key as field 1 and the value as field 2.
\<close>

definition supportedKind :: "kind \<Rightarrow> bool" where
  "supportedKind k = (case k of OtherKind n \<Rightarrow> False | _ \<Rightarrow> True)"

fun attrNames :: "path \<Rightarrow> string list" where
  "attrNames [] = []"
| "attrNames (GetAttrStep name # p) = name # attrNames p"
| "attrNames (IndexStep key # p) = attrNames p"







text \<open>
  A value conforms to a field when the messages in it are instances of the
  message descriptor of the field they sit in: a message under the field
  itself or as an element of its list, the values of a map under the value
  field of the map entry. A message conforms when its populated fields do.
\<close>

fun conforms :: "pvalue \<Rightarrow> field_desc \<Rightarrow> bool"
  and conforms_message :: "message \<Rightarrow> bool" where
  "conforms (PMessage m) fd \<longleftrightarrow> Message fd = Some (Descriptor m) \<and> conforms_message m"
| "conforms (PList xs) fd \<longleftrightarrow> (\<forall>x\<in>set xs. conforms x fd)"
| "conforms (PMap es) fd \<longleftrightarrow>
     (case Message fd of
        None \<Rightarrow> True
      | Some sub \<Rightarrow>
          (case ByNumber (Fields sub) 2 of
             None \<Rightarrow> True
           | Some valField \<Rightarrow> \<forall>e\<in>set es. conforms (snd e) valField))"
| "conforms x fd \<longleftrightarrow> True"
| "conforms_message (Msg d pop) \<longleftrightarrow>
     (\<forall>e\<in>set pop. \<forall>fd\<in>set (Fields d). FieldNumber fd = fst e \<longrightarrow> conforms (snd e) fd)"


text \<open>
  \<^verbatim>\<open>Value.GetAttr\<close> of cty, the attribute of an object value, and the
  twelve numeric kinds.
\<close>

definition GetAttr :: "cty_value \<Rightarrow> string \<Rightarrow> cty_value option" where
  "GetAttr val name =
     (case val of
        Value (cty_Object atys) (RObject attrs) \<Rightarrow>
          (case (fmlookup atys name, fmlookup attrs name) of
             (Some t, Some r) \<Rightarrow> Some (Value t r)
           | _ \<Rightarrow> None)
      | _ \<Rightarrow> None)"

definition numericKinds :: "kind set" where
  "numericKinds = {Int32Kind, Sint32Kind, Uint32Kind, Int64Kind, Sint64Kind, Uint64Kind,
     Sfixed32Kind, Fixed32Kind, FloatKind, Sfixed64Kind, Fixed64Kind, DoubleKind}"


section \<open>The descriptors of the test suite (testproto.proto)\<close>

text \<open>
  The messages of \<^verbatim>\<open>internal/testproto/testproto.proto\<close> that the
  statements below are tried on. The file is proto3: a scalar field tracks
  presence only if it is \<^verbatim>\<open>optional\<close> or a member of a oneof, a message
  field always does, a repeated field never.
\<close>

definition scalarField :: "string \<Rightarrow> int \<Rightarrow> kind \<Rightarrow> field_desc" where
  "scalarField name n k = FieldDesc name n k Optional False None None None"

definition WithOneOf_desc :: message_desc where
  "WithOneOf_desc = MessageDesc
     [scalarField ''outside'' 1 StringKind,
      FieldDesc ''a'' 2 StringKind Optional True (Some ''t_oneof'') None None,
      FieldDesc ''b'' 3 StringKind Optional True (Some ''t_oneof'') None None]
     False"

definition Nested_desc :: message_desc where
  "Nested_desc = MessageDesc [scalarField ''t_nested_field'' 1 StringKind] False"

definition mapEntry :: "field_desc \<Rightarrow> field_desc \<Rightarrow> message_desc" where
  "mapEntry keyField valField = MessageDesc [keyField, valField] True"

definition mapField :: "string \<Rightarrow> int \<Rightarrow> field_desc \<Rightarrow> field_desc \<Rightarrow> field_desc" where
  "mapField name n keyField valField =
     FieldDesc name n MessageKind Repeated False None
       (Some (mapEntry keyField valField)) None"

definition NestedValue :: field_desc where
  "NestedValue = FieldDesc ''value'' 2 MessageKind Optional True None (Some Nested_desc) None"

definition WithRepeated_desc :: message_desc where
  "WithRepeated_desc = MessageDesc
     [FieldDesc ''t_strings'' 1 StringKind Repeated False None None None,
      FieldDesc ''t_message'' 2 MessageKind Repeated False None (Some Nested_desc) None,
      mapField ''t_map_string_bool'' 3
        (scalarField ''key'' 1 StringKind) (scalarField ''value'' 2 BoolKind),
      mapField ''t_map_number_bool'' 4
        (scalarField ''key'' 1 Int64Kind) (scalarField ''value'' 2 BoolKind),
      mapField ''t_map_string_message'' 5
        (scalarField ''key'' 1 StringKind) NestedValue,
      mapField ''t_map_number_message'' 6
        (scalarField ''key'' 1 Int64Kind) NestedValue]
     False"

definition Things_desc :: enum_desc where
  "Things_desc = EnumDesc
     [EnumValueDesc ''A'' 0, EnumValueDesc ''b'' 1, EnumValueDesc ''C'' 2,
      EnumValueDesc ''d'' 3]"

definition t_enum :: field_desc where
  "t_enum = FieldDesc ''t_enum'' 2 EnumKind Optional False None None (Some Things_desc)"

definition WithEnum_desc :: message_desc where
  "WithEnum_desc = MessageDesc [scalarField ''t_string'' 1 StringKind, t_enum] False"


definition WithOptional_desc :: message_desc where
  "WithOptional_desc = MessageDesc
     [scalarField ''string_req'' 1 StringKind,
      FieldDesc ''string_opt'' 2 StringKind Optional True (Some ''_string_opt'') None None,
      scalarField ''int32_req'' 3 Int32Kind,
      FieldDesc ''int32_opt'' 4 Int32Kind Optional True (Some ''_int32_opt'') None None,
      FieldDesc ''message_req'' 5 MessageKind Optional True None
        (Some (MessageDesc [] False)) None,
      FieldDesc ''message_opt'' 6 MessageKind Optional True (Some ''_message_opt'')
        (Some (MessageDesc [] False)) None]
     False"


text \<open>An instance of \<^verbatim>\<open>WithRepeated\<close> with a list of strings, a list of messages and two maps.\<close>

definition WithRepeated_msg :: message where
  "WithRepeated_msg = Msg WithRepeated_desc
     [(1, PList [PString ''hello'', PString ''world'']),
      (2, PList [PMessage (Msg Nested_desc [])]),
      (3, PMap [(KString ''a'', PBool True), (KString ''b'', PBool False)]),
      (4, PMap [(KInt64 1, PBool True), (KInt64 2, PBool False)])]"

text \<open>
  The repeated string field of \<^verbatim>\<open>WithRepeated\<close>, the value the test suite
  expects for the instance with nothing set, and the instance of
  \<^verbatim>\<open>WithOneOf\<close> of the test "OneOf all set".
\<close>

definition t_strings :: field_desc where
  "t_strings = FieldDesc ''t_strings'' 1 StringKind Repeated False None None None"

definition WithRepeated_unset_value :: cty_value where
  "WithRepeated_unset_value = ObjectVal
     (fmupd ''t_map_number_message'' (SetValEmpty (cty_Object
        (fmupd ''value'' (cty_Object (fmupd ''t_nested_field'' cty_String fmempty))
          (fmupd ''key'' cty_Number fmempty))))
     (fmupd ''t_map_string_message''
        (MapValEmpty (cty_Object (fmupd ''t_nested_field'' cty_String fmempty)))
     (fmupd ''t_map_number_bool'' (SetValEmpty (cty_Object
        (fmupd ''value'' cty_Bool (fmupd ''key'' cty_Number fmempty))))
     (fmupd ''t_map_string_bool'' (MapValEmpty cty_Bool)
     (fmupd ''t_message''
        (ListValEmpty (cty_Object (fmupd ''t_nested_field'' cty_String fmempty)))
     (fmupd ''t_strings'' (ListValEmpty cty_String) fmempty))))))"

definition WithOneOf_msg :: message where
  "WithOneOf_msg = Msg WithOneOf_desc [(1, PString ''hello''), (3, PString ''boop'')]"


section \<open>Properties of the type deriver\<close>

subsection \<open>Unfolding the deriver\<close>

declare impliedTypeForMessageDesc.simps [simp del]
  impliedTypeForMessageDesc_loop.simps [simp del]
  impliedTypeForFieldDesc.simps [simp del]
  impliedTypeForFieldKind.simps [simp del]

lemma IsMap_iff:
  "IsMap field \<longleftrightarrow>
     Cardinality field = Repeated \<and> Kind field = MessageKind \<and>
     (\<exists>sub. Message field = Some sub \<and> IsMapEntry sub)"
  by (auto simp: IsMap_def split: option.splits)

lemma impliedTypeForFieldDesc_string_map:
  assumes "IsMap field" "Message field = Some sub"
    "ByNumber (Fields sub) 1 = Some keyField" "Kind keyField = StringKind"
    "ByNumber (Fields sub) 2 = Some valField"
  shows "impliedTypeForFieldDesc field path =
    (case impliedTypeForFieldDesc valField (path @ [IndexStep (UnknownVal cty_String)]) of
       Inl err \<Rightarrow> Inl err
     | Inr valTy \<Rightarrow> Inr (cty_Map valTy))"
  using assms by (subst impliedTypeForFieldDesc.simps) (simp add: IsMap_iff)

lemma impliedTypeForFieldDesc_other_map:
  assumes "IsMap field" "Message field = Some sub"
    "ByNumber (Fields sub) 1 = Some keyField" "Kind keyField \<noteq> StringKind"
  shows "impliedTypeForFieldDesc field path =
    (case impliedTypeForFieldDesc keyField path of
       Inl err \<Rightarrow> Inl err
     | Inr keyTy \<Rightarrow>
         (case ByNumber (Fields sub) 2 of
            None \<Rightarrow> Inl Panic
          | Some valField \<Rightarrow>
              (case impliedTypeForFieldDesc valField
                      (path @ [IndexStep (UnknownVal keyTy)]) of
                 Inl err \<Rightarrow> Inl err
               | Inr valTy \<Rightarrow>
                   Inr (cty_Set (cty_Object
                     (fmupd ''value'' valTy (fmupd ''key'' keyTy fmempty)))))))"
  using assms by (subst impliedTypeForFieldDesc.simps) (simp add: IsMap_iff)

lemma impliedTypeForFieldDesc_map_Panic:
  assumes "IsMap field" "Message field = Some sub"
  shows "ByNumber (Fields sub) 1 = None \<Longrightarrow> impliedTypeForFieldDesc field path = Inl Panic"
    and "ByNumber (Fields sub) 1 = Some keyField \<Longrightarrow> Kind keyField = StringKind \<Longrightarrow>
      ByNumber (Fields sub) 2 = None \<Longrightarrow> impliedTypeForFieldDesc field path = Inl Panic"
  using assms by (subst impliedTypeForFieldDesc.simps; simp add: IsMap_iff)+

lemma impliedTypeForFieldDesc_not_map:
  assumes "\<not> IsMap field"
  shows "impliedTypeForFieldDesc field path =
    (case impliedTypeForFieldKind field path of
       Inl err \<Rightarrow> Inl err
     | Inr aty \<Rightarrow> if Cardinality field = Repeated then Inr (cty_List aty) else Inr aty)"
proof (cases "Cardinality field = Repeated \<and> Kind field = MessageKind")
  case True
  show ?thesis
  proof (cases "Message field")
    case None
    with True show ?thesis
      by (subst impliedTypeForFieldDesc.simps) (simp add: impliedTypeForFieldKind.simps)
  next
    case (Some sub)
    with True assms have "\<not> IsMapEntry sub" by (simp add: IsMap_iff)
    with True Some show ?thesis
      by (subst impliedTypeForFieldDesc.simps) (simp split: sum.splits)
  qed
next
  case False
  show ?thesis
    by (subst impliedTypeForFieldDesc.simps) (simp only: False if_False)
qed


lemma implied_path_indep:
  "(\<forall>T p'. impliedTypeForMessageDesc desc path = Inr T \<longrightarrow>
           impliedTypeForMessageDesc desc p' = Inr T)"
  "(\<forall>T p'. impliedTypeForMessageDesc_loop fields path atys = Inr T \<longrightarrow>
           impliedTypeForMessageDesc_loop fields p' atys = Inr T)"
  "(\<forall>T p'. impliedTypeForFieldDesc field path = Inr T \<longrightarrow>
           impliedTypeForFieldDesc field p' = Inr T)"
  "(\<forall>T p'. impliedTypeForFieldKind field2 path = Inr T \<longrightarrow>
           impliedTypeForFieldKind field2 p' = Inr T)"
proof (induction desc path and fields path atys and field path and field2 path
    rule: impliedTypeForMessageDesc_impliedTypeForMessageDesc_loop_impliedTypeForFieldDesc_impliedTypeForFieldKind.induct)
  case (1 desc path)
  show ?case unfolding impliedTypeForMessageDesc.simps by (rule 1)
next
  case (2 path atys)
  then show ?case by (simp add: impliedTypeForMessageDesc_loop.simps)
next
  case (3 field rest path atys)
  show ?case
  proof (intro allI impI)
    fix T p'
    assume ok: "impliedTypeForMessageDesc_loop (field # rest) path atys = Inr T"
    then obtain aty where
      f: "impliedTypeForFieldDesc field (path @ [GetAttrStep (Name field)]) = Inr aty" and
      r: "impliedTypeForMessageDesc_loop rest path (fmupd (Name field) aty atys) = Inr T"
      by (auto simp: impliedTypeForMessageDesc_loop.simps split: sum.splits)
    from "3.IH"(1) f
    have "impliedTypeForFieldDesc field (p' @ [GetAttrStep (Name field)]) = Inr aty"
      by blast
    moreover from "3.IH"(2) [OF f] r
    have "impliedTypeForMessageDesc_loop rest p' (fmupd (Name field) aty atys) = Inr T"
      by blast
    ultimately show "impliedTypeForMessageDesc_loop (field # rest) p' atys = Inr T"
      by (simp add: impliedTypeForMessageDesc_loop.simps)
  qed
next
  case (4 field path)
  show ?case
  proof (intro allI impI)
    fix T p'
    assume ok: "impliedTypeForFieldDesc field path = Inr T"
    show "impliedTypeForFieldDesc field p' = Inr T"
    proof (cases "IsMap field")
      case False
      with ok obtain aty where k: "impliedTypeForFieldKind field path = Inr aty"
        and T: "T = (if Cardinality field = Repeated then cty_List aty else aty)"
        by (auto simp: impliedTypeForFieldDesc_not_map split: sum.splits if_splits)
      have "impliedTypeForFieldKind field p' = Inr aty"
      proof (cases "Cardinality field = Repeated \<and> Kind field = MessageKind")
        case True
        with False obtain sub where "Message field = Some sub" "\<not> IsMapEntry sub"
          using k by (cases "Message field")
            (auto simp: IsMap_iff impliedTypeForFieldKind.simps)
        with "4.IH"(4) [OF True this] k show ?thesis by blast
      next
        case F: False
        with "4.IH"(5) k show ?thesis by blast
      qed
      with False T show ?thesis
        by (simp add: impliedTypeForFieldDesc_not_map)
    next
      case True
      then obtain sub where sub: "Message field = Some sub" "IsMapEntry sub"
        and rep: "Cardinality field = Repeated \<and> Kind field = MessageKind"
        by (auto simp: IsMap_iff)
      show ?thesis
      proof (cases "ByNumber (Fields sub) 1")
        case None
        with ok True sub show ?thesis
          by (simp add: impliedTypeForFieldDesc_map_Panic)
      next
        case (Some keyField)
        show ?thesis
        proof (cases "Kind keyField = StringKind")
          case str: True
          show ?thesis
          proof (cases "ByNumber (Fields sub) 2")
            case None
            with ok True sub Some str show ?thesis
              by (simp add: impliedTypeForFieldDesc_map_Panic)
          next
            case v: (Some valField)
            note eq = impliedTypeForFieldDesc_string_map [OF True sub(1) Some str v]
            from ok obtain valTy where
              "impliedTypeForFieldDesc valField (path @ [IndexStep (UnknownVal cty_String)]) =
                 Inr valTy" and T: "T = cty_Map valTy"
              by (auto simp: eq split: sum.splits)
            with "4.IH"(1) [OF rep sub Some str v]
            have "impliedTypeForFieldDesc valField (p' @ [IndexStep (UnknownVal cty_String)]) =
                 Inr valTy" by blast
            with T show ?thesis by (simp add: eq)
          qed
        next
          case nstr: False
          note eq = impliedTypeForFieldDesc_other_map [OF True sub(1) Some nstr]
          from ok obtain keyTy valField valTy where
            k: "impliedTypeForFieldDesc keyField path = Inr keyTy" and
            v: "ByNumber (Fields sub) 2 = Some valField" and
            vt: "impliedTypeForFieldDesc valField (path @ [IndexStep (UnknownVal keyTy)]) =
                Inr valTy" and
            T: "T = cty_Set (cty_Object (fmupd ''value'' valTy (fmupd ''key'' keyTy fmempty)))"
            by (auto simp: eq split: sum.splits option.splits)
          from "4.IH"(2) [OF rep sub Some nstr] k
          have k': "impliedTypeForFieldDesc keyField p' = Inr keyTy" by blast
          from "4.IH"(3) [OF rep sub Some nstr k v] vt
          have "impliedTypeForFieldDesc valField (p' @ [IndexStep (UnknownVal keyTy)]) =
                Inr valTy" by blast
          with k' v T show ?thesis by (simp add: eq)
        qed
      qed
    qed
  qed
next
  case (5 field path)
  show ?case
  proof (intro allI impI)
    fix T p'
    assume ok: "impliedTypeForFieldKind field path = Inr T"
    show "impliedTypeForFieldKind field p' = Inr T"
    proof (cases "Kind field \<in> {MessageKind, GroupKind}")
      case True
      with ok obtain sub where sub: "Message field = Some sub"
        and m: "impliedTypeForMessageDesc sub path = Inr T"
        by (cases "Message field") (auto simp: impliedTypeForFieldKind.simps)
      from True have "Kind field \<noteq> BoolKind"
        "Kind field \<notin> {Int32Kind, Sint32Kind, Uint32Kind, Int64Kind, Sint64Kind,
                Uint64Kind, Sfixed32Kind, Fixed32Kind, FloatKind, Sfixed64Kind,
                Fixed64Kind, DoubleKind}"
        "Kind field \<notin> {StringKind, BytesKind, EnumKind}" by auto
      from "5.IH" [OF this True sub] m
      have "impliedTypeForMessageDesc sub p' = Inr T" by blast
      with True sub show ?thesis
        by (auto simp: impliedTypeForFieldKind.simps)
    next
      case False
      with ok show ?thesis
        by (auto simp: impliedTypeForFieldKind.simps split: if_splits)
    qed
  qed
qed


subsection \<open>Repeated fields\<close>

lemma impliedTypeForFieldDesc_singular:
  "impliedTypeForFieldDesc (singular field) path = impliedTypeForFieldKind field path"
proof -
  have "\<not> IsMap (singular field)" by (simp add: IsMap_iff singular_def)
  moreover have "impliedTypeForFieldKind (singular field) path =
      impliedTypeForFieldKind field path"
    by (simp add: impliedTypeForFieldKind.simps singular_def)
  ultimately show ?thesis
    by (simp add: impliedTypeForFieldDesc_not_map singular_def split: sum.splits)
qed

lemma impliedTypeForMessageDesc_path:
  "impliedTypeForMessageDesc desc path = Inr T \<Longrightarrow> impliedTypeForMessageDesc desc p' = Inr T"
  using implied_path_indep(1) by blast

lemma impliedTypeForFieldDesc_path:
  "impliedTypeForFieldDesc field path = Inr T \<Longrightarrow> impliedTypeForFieldDesc field p' = Inr T"
  using implied_path_indep(3) by blast

lemma impliedTypeForFieldKind_path:
  "impliedTypeForFieldKind field path = Inr T \<Longrightarrow> impliedTypeForFieldKind field p' = Inr T"
  using implied_path_indep(4) by blast

text \<open>
  Claim C3. A repeated field that is a map with a key field of string kind
  derives to the map type over the derived type of its value field; a map
  with a key field of another kind derives to the set type over the object
  type with attributes \<^verbatim>\<open>key\<close> and \<^verbatim>\<open>value\<close> of the derived types of the
  key and value fields; any other repeated field derives to the list type
  over the type that the singular form of the field derives to.
\<close>

theorem repeated_field_types:
  assumes "Cardinality field = Repeated"
  shows
    "(IsMap field \<and> Message field = Some sub \<and>
      ByNumber (Fields sub) 1 = Some keyField \<and> ByNumber (Fields sub) 2 = Some valField \<and>
      Kind keyField = StringKind \<and> impliedTypeForFieldDesc valField p1 = Inr T \<longrightarrow>
        impliedTypeForFieldDesc field path = Inr (cty_Map T)) \<and>
     (IsMap field \<and> Message field = Some sub \<and>
      ByNumber (Fields sub) 1 = Some keyField \<and> ByNumber (Fields sub) 2 = Some valField \<and>
      Kind keyField \<noteq> StringKind \<and> impliedTypeForFieldDesc keyField p1 = Inr K \<and>
      impliedTypeForFieldDesc valField p2 = Inr V \<longrightarrow>
        impliedTypeForFieldDesc field path =
          Inr (cty_Set (cty_Object (fmupd ''value'' V (fmupd ''key'' K fmempty))))) \<and>
     (\<not> IsMap field \<and> impliedTypeForFieldDesc (singular field) p1 = Inr B \<longrightarrow>
        impliedTypeForFieldDesc field path = Inr (cty_List B))"
proof (intro conjI impI)
  assume a: "IsMap field \<and> Message field = Some sub \<and>
      ByNumber (Fields sub) 1 = Some keyField \<and> ByNumber (Fields sub) 2 = Some valField \<and>
      Kind keyField = StringKind \<and> impliedTypeForFieldDesc valField p1 = Inr T"
  then have "impliedTypeForFieldDesc valField (path @ [IndexStep (UnknownVal cty_String)]) = Inr T"
    by (blast intro: impliedTypeForFieldDesc_path)
  with a show "impliedTypeForFieldDesc field path = Inr (cty_Map T)"
    by (simp add: impliedTypeForFieldDesc_string_map [of field sub keyField valField])
next
  assume a: "IsMap field \<and> Message field = Some sub \<and>
      ByNumber (Fields sub) 1 = Some keyField \<and> ByNumber (Fields sub) 2 = Some valField \<and>
      Kind keyField \<noteq> StringKind \<and> impliedTypeForFieldDesc keyField p1 = Inr K \<and>
      impliedTypeForFieldDesc valField p2 = Inr V"
  then have "impliedTypeForFieldDesc keyField path = Inr K"
    "impliedTypeForFieldDesc valField (path @ [IndexStep (UnknownVal K)]) = Inr V"
    by (blast intro: impliedTypeForFieldDesc_path)+
  with a show "impliedTypeForFieldDesc field path =
          Inr (cty_Set (cty_Object (fmupd ''value'' V (fmupd ''key'' K fmempty))))"
    by (simp add: impliedTypeForFieldDesc_other_map [of field sub keyField])
next
  assume a: "\<not> IsMap field \<and> impliedTypeForFieldDesc (singular field) p1 = Inr B"
  then have "impliedTypeForFieldKind field p1 = Inr B"
    by (simp add: impliedTypeForFieldDesc_singular)
  then have "impliedTypeForFieldKind field path = Inr B"
    by (rule impliedTypeForFieldKind_path)
  with a assms show "impliedTypeForFieldDesc field path = Inr (cty_List B)"
    by (simp add: impliedTypeForFieldDesc_not_map)
qed

lemma scalar_types:
  "impliedTypeForFieldDesc (scalarField name n BoolKind) p = Inr cty_Bool"
  "impliedTypeForFieldDesc (scalarField name n Int64Kind) p = Inr cty_Number"
  "impliedTypeForFieldDesc (scalarField name n StringKind) p = Inr cty_String"
  by (simp_all add: scalarField_def impliedTypeForFieldDesc_not_map IsMap_iff
      impliedTypeForFieldKind.simps)

theorem repeated_field_types_witness:
  "impliedTypeForFieldDesc
     (mapField ''t_map_string_bool'' 3
        (scalarField ''key'' 1 StringKind) (scalarField ''value'' 2 BoolKind))
     [GetAttrStep ''t_map_string_bool''] = Inr (cty_Map cty_Bool) \<and>
   impliedTypeForFieldDesc
     (mapField ''t_map_number_bool'' 4
        (scalarField ''key'' 1 Int64Kind) (scalarField ''value'' 2 BoolKind))
     [GetAttrStep ''t_map_number_bool''] =
     Inr (cty_Set (cty_Object (fmupd ''value'' cty_Bool (fmupd ''key'' cty_Number fmempty)))) \<and>
   impliedTypeForFieldDesc
     (FieldDesc ''t_strings'' 1 StringKind Repeated False None None None)
     [GetAttrStep ''t_strings''] = Inr (cty_List cty_String)"
proof -
  let ?sk = "scalarField ''key'' 1 StringKind"
  let ?ik = "scalarField ''key'' 1 Int64Kind"
  let ?bv = "scalarField ''value'' 2 BoolKind"
  have 1: "impliedTypeForFieldDesc (mapField ''t_map_string_bool'' 3 ?sk ?bv)
      [GetAttrStep ''t_map_string_bool''] = Inr (cty_Map cty_Bool)"
    using repeated_field_types [where field = "mapField ''t_map_string_bool'' 3 ?sk ?bv"
        and sub = "mapEntry ?sk ?bv" and keyField = ?sk and valField = ?bv
        and ?p1.0 = "[]" and T = cty_Bool and path = "[GetAttrStep ''t_map_string_bool'']"]
    by (simp add: scalar_types mapField_def mapEntry_def IsMap_iff)
      (simp add: scalarField_def)
  have 2: "impliedTypeForFieldDesc (mapField ''t_map_number_bool'' 4 ?ik ?bv)
      [GetAttrStep ''t_map_number_bool''] =
      Inr (cty_Set (cty_Object (fmupd ''value'' cty_Bool (fmupd ''key'' cty_Number fmempty))))"
    using repeated_field_types [where field = "mapField ''t_map_number_bool'' 4 ?ik ?bv"
        and sub = "mapEntry ?ik ?bv" and keyField = ?ik and valField = ?bv
        and ?p1.0 = "[]" and ?p2.0 = "[]" and K = cty_Number and V = cty_Bool
        and path = "[GetAttrStep ''t_map_number_bool'']"]
    by (simp add: scalar_types mapField_def mapEntry_def IsMap_iff)
      (simp add: scalarField_def)
  have 3: "impliedTypeForFieldDesc
      (FieldDesc ''t_strings'' 1 StringKind Repeated False None None None)
      [GetAttrStep ''t_strings''] = Inr (cty_List cty_String)"
    using repeated_field_types [where
        field = "FieldDesc ''t_strings'' 1 StringKind Repeated False None None None"
        and ?p1.0 = "[]" and B = cty_String and path = "[GetAttrStep ''t_strings'']"]
    by (simp add: IsMap_iff singular_def impliedTypeForFieldDesc_not_map
        impliedTypeForFieldKind.simps)
  from 1 2 3 show ?thesis by simp
qed


subsection \<open>Message descriptors\<close>

lemma withoutOneofs_field_sel [simp]:
  "Name (withoutOneofs_field f) = Name f"
  "FieldNumber (withoutOneofs_field f) = FieldNumber f"
  "Kind (withoutOneofs_field f) = Kind f"
  "Cardinality (withoutOneofs_field f) = Cardinality f"
  "Message (withoutOneofs_field f) = map_option withoutOneofs (Message f)"
  by (cases f; simp)+

lemma withoutOneofs_sel [simp]:
  "Fields (withoutOneofs d) = map withoutOneofs_field (Fields d)"
  "IsMapEntry (withoutOneofs d) = IsMapEntry d"
  by (cases d; simp)+

lemma ByNumber_withoutOneofs [simp]:
  "ByNumber (map withoutOneofs_field fs) n = map_option withoutOneofs_field (ByNumber fs n)"
  by (induction fs) simp_all

lemma IsMap_withoutOneofs [simp]: "IsMap (withoutOneofs_field f) = IsMap f"
  by (cases "Message f") (simp_all add: IsMap_def)

lemma withoutOneofs_implied:
  "impliedTypeForMessageDesc (withoutOneofs desc) path = impliedTypeForMessageDesc desc path"
  "impliedTypeForMessageDesc_loop (map withoutOneofs_field fields) path atys =
     impliedTypeForMessageDesc_loop fields path atys"
  "impliedTypeForFieldDesc (withoutOneofs_field field) path =
     impliedTypeForFieldDesc field path"
  "impliedTypeForFieldKind (withoutOneofs_field field2) path =
     impliedTypeForFieldKind field2 path"
proof (induction desc path and fields path atys and field path and field2 path
    rule: impliedTypeForMessageDesc_impliedTypeForMessageDesc_loop_impliedTypeForFieldDesc_impliedTypeForFieldKind.induct)
  case (1 desc path)
  then show ?case by (simp add: impliedTypeForMessageDesc.simps)
next
  case (2 path atys)
  show ?case by simp
next
  case (3 field rest path atys)
  show ?case
  proof (cases "impliedTypeForFieldDesc field (path @ [GetAttrStep (Name field)])")
    case (Inl err)
    with "3.IH"(1) show ?thesis
      by (simp add: impliedTypeForMessageDesc_loop.simps)
  next
    case (Inr aty)
    with "3.IH"(1) "3.IH"(2) [OF Inr] show ?thesis
      by (simp add: impliedTypeForMessageDesc_loop.simps)
  qed
next
  case (4 field path)
  let ?f = "withoutOneofs_field field"
  show ?case
  proof (cases "IsMap field")
    case False
    have "impliedTypeForFieldKind ?f path = impliedTypeForFieldKind field path"
    proof (cases "Cardinality field = Repeated \<and> Kind field = MessageKind")
      case rep: True
      show ?thesis
      proof (cases "Message field")
        case None
        with rep show ?thesis by (simp add: impliedTypeForFieldKind.simps)
      next
        case (Some sub)
        with False rep have "\<not> IsMapEntry sub" by (simp add: IsMap_iff)
        from "4.IH"(4) [OF rep Some this] show ?thesis .
      qed
    next
      case nrep: False
      from "4.IH"(5) [OF nrep] show ?thesis .
    qed
    with False show ?thesis
      by (simp add: impliedTypeForFieldDesc_not_map split: sum.splits)
  next
    case True
    then obtain sub where sub: "Message field = Some sub" "IsMapEntry sub"
      and rep: "Cardinality field = Repeated \<and> Kind field = MessageKind"
      by (auto simp: IsMap_iff)
    have True': "IsMap ?f" using True by simp
    have sub': "Message ?f = Some (withoutOneofs sub)" using sub by simp
    show ?thesis
    proof (cases "ByNumber (Fields sub) 1")
      case None
      then have "ByNumber (Fields (withoutOneofs sub)) 1 = None" by simp
      from impliedTypeForFieldDesc_map_Panic(1) [OF True' sub' this]
        impliedTypeForFieldDesc_map_Panic(1) [OF True sub(1) None]
      show ?thesis by simp
    next
      case (Some keyField)
      then have k': "ByNumber (Fields (withoutOneofs sub)) 1 = Some (withoutOneofs_field keyField)"
        by simp
      show ?thesis
      proof (cases "Kind keyField = StringKind")
        case str: True
        then have str': "Kind (withoutOneofs_field keyField) = StringKind" by simp
        show ?thesis
        proof (cases "ByNumber (Fields sub) 2")
          case None
          then have "ByNumber (Fields (withoutOneofs sub)) 2 = None" by simp
          from impliedTypeForFieldDesc_map_Panic(2) [OF True' sub' k' str' this]
            impliedTypeForFieldDesc_map_Panic(2) [OF True sub(1) Some str None]
          show ?thesis by simp
        next
          case v: (Some valField)
          then have v': "ByNumber (Fields (withoutOneofs sub)) 2 =
              Some (withoutOneofs_field valField)" by simp
          from "4.IH"(1) [OF rep sub Some str v]
          show ?thesis
            by (simp add: impliedTypeForFieldDesc_string_map [OF True sub(1) Some str v]
                impliedTypeForFieldDesc_string_map [OF True' sub' k' str' v'])
        qed
      next
        case nstr: False
        then have nstr': "Kind (withoutOneofs_field keyField) \<noteq> StringKind" by simp
        note l = impliedTypeForFieldDesc_other_map [OF True sub(1) Some nstr]
        note r = impliedTypeForFieldDesc_other_map [OF True' sub' k' nstr']
        note kIH = "4.IH"(2) [OF rep sub Some nstr]
        show ?thesis
        proof (cases "impliedTypeForFieldDesc keyField path")
          case (Inl err)
          with kIH show ?thesis by (simp add: l r)
        next
          case (Inr keyTy)
          show ?thesis
          proof (cases "ByNumber (Fields sub) 2")
            case None
            with Inr kIH show ?thesis by (simp add: l r)
          next
            case v: (Some valField)
            from "4.IH"(3) [OF rep sub Some nstr Inr v] Inr kIH v
            show ?thesis by (simp add: l r)
          qed
        qed
      qed
    qed
  qed
next
  case (5 field path)
  show ?case
  proof (cases "Kind field \<in> {MessageKind, GroupKind}")
    case True
    show ?thesis
    proof (cases "Message field")
      case None
      then show ?thesis by (simp add: impliedTypeForFieldKind.simps)
    next
      case (Some sub)
      from True have "Kind field \<noteq> BoolKind"
        "Kind field \<notin> {Int32Kind, Sint32Kind, Uint32Kind, Int64Kind, Sint64Kind,
                Uint64Kind, Sfixed32Kind, Fixed32Kind, FloatKind, Sfixed64Kind,
                Fixed64Kind, DoubleKind}"
        "Kind field \<notin> {StringKind, BytesKind, EnumKind}" by auto
      from "5.IH" [OF this True Some] Some show ?thesis
        by (simp add: impliedTypeForFieldKind.simps)
    qed
  next
    case False
    then show ?thesis
      by (simp add: impliedTypeForFieldKind.simps)
  qed
qed


lemma loop_attributes:
  "impliedTypeForMessageDesc_loop fields path atys = Inr T \<Longrightarrow>
   \<exists>atys'. T = cty_Object atys' \<and>
     fmdom atys' = fmdom atys |\<union>| fset_of_list (map Name fields) \<and>
     (\<forall>name. name \<notin> set (map Name fields) \<longrightarrow> fmlookup atys' name = fmlookup atys name) \<and>
     (distinct (map Name fields) \<longrightarrow>
        (\<forall>f\<in>set fields. \<exists>aty.
           impliedTypeForFieldDesc f (path @ [GetAttrStep (Name f)]) = Inr aty \<and>
           fmlookup atys' (Name f) = Some aty))"
proof (induction fields arbitrary: atys)
  case Nil
  then show ?case by (auto simp: impliedTypeForMessageDesc_loop.simps)
next
  case (Cons field rest)
  from Cons.prems obtain aty where
    f: "impliedTypeForFieldDesc field (path @ [GetAttrStep (Name field)]) = Inr aty" and
    r: "impliedTypeForMessageDesc_loop rest path (fmupd (Name field) aty atys) = Inr T"
    by (auto simp: impliedTypeForMessageDesc_loop.simps split: sum.splits)
  from Cons.IH [OF r] obtain atys' where
    T: "T = cty_Object atys'" and
    d: "fmdom atys' = fmdom (fmupd (Name field) aty atys) |\<union>| fset_of_list (map Name rest)" and
    keep: "\<forall>name. name \<notin> set (map Name rest) \<longrightarrow>
       fmlookup atys' name = fmlookup (fmupd (Name field) aty atys) name" and
    each: "distinct (map Name rest) \<longrightarrow>
        (\<forall>f\<in>set rest. \<exists>aty.
           impliedTypeForFieldDesc f (path @ [GetAttrStep (Name f)]) = Inr aty \<and>
           fmlookup atys' (Name f) = Some aty)"
    by blast
  have "fmdom atys' = fmdom atys |\<union>| fset_of_list (map Name (field # rest))"
    using d by auto
  moreover have "\<forall>name. name \<notin> set (map Name (field # rest)) \<longrightarrow>
      fmlookup atys' name = fmlookup atys name"
    using keep by auto
  moreover have "distinct (map Name (field # rest)) \<longrightarrow>
        (\<forall>f\<in>set (field # rest). \<exists>aty.
           impliedTypeForFieldDesc f (path @ [GetAttrStep (Name f)]) = Inr aty \<and>
           fmlookup atys' (Name f) = Some aty)"
  proof (intro impI ballI)
    fix g
    assume dist: "distinct (map Name (field # rest))" and g: "g \<in> set (field # rest)"
    show "\<exists>aty. impliedTypeForFieldDesc g (path @ [GetAttrStep (Name g)]) = Inr aty \<and>
           fmlookup atys' (Name g) = Some aty"
    proof (cases "g = field")
      case True
      from dist have "Name field \<notin> set (map Name rest)" by simp
      with keep have "fmlookup atys' (Name field) = Some aty" by simp
      with f True show ?thesis by simp
    next
      case False
      with g dist each show ?thesis by simp
    qed
  qed
  ultimately show ?case using T by blast
qed

lemma fcard_fset_of_list: "distinct xs \<Longrightarrow> fcard (fset_of_list xs) = length xs"
  by (simp add: fcard.rep_eq fset_of_list.rep_eq distinct_card)

text \<open>
  Claim C4. When the deriver succeeds on a message descriptor, the result is
  an object type whose attribute names are the names of the fields; with
  the \<open>N\<close> field names distinct it has exactly \<open>N\<close> attributes, the one
  named after a field holding the derived type of that field. Membership
  of fields in oneof groups leaves no trace: erasing it throughout the
  descriptor gives the same type.
\<close>

theorem message_type_attributes:
  assumes "ImpliedTypeForMessageDesc desc = Inr T"
  shows "\<exists>atys. T = cty_Object atys \<and>
     fmdom atys = fset_of_list (map Name (Fields desc)) \<and>
     (distinct (map Name (Fields desc)) \<longrightarrow>
        fcard (fmdom atys) = length (Fields desc) \<and>
        (\<forall>f\<in>set (Fields desc). \<exists>aty.
           impliedTypeForFieldDesc f [GetAttrStep (Name f)] = Inr aty \<and>
           fmlookup atys (Name f) = Some aty)) \<and>
     ImpliedTypeForMessageDesc (withoutOneofs desc) = Inr T"
proof -
  from assms have "impliedTypeForMessageDesc_loop (Fields desc) [] fmempty = Inr T"
    by (simp add: ImpliedTypeForMessageDesc_def impliedTypeForMessageDesc.simps)
  from loop_attributes [OF this] obtain atys where
    T: "T = cty_Object atys" and
    d: "fmdom atys = fset_of_list (map Name (Fields desc))" and
    each: "distinct (map Name (Fields desc)) \<longrightarrow>
        (\<forall>f\<in>set (Fields desc). \<exists>aty.
           impliedTypeForFieldDesc f ([] @ [GetAttrStep (Name f)]) = Inr aty \<and>
           fmlookup atys (Name f) = Some aty)"
    by auto
  have "distinct (map Name (Fields desc)) \<longrightarrow> fcard (fmdom atys) = length (Fields desc)"
  proof
    assume "distinct (map Name (Fields desc))"
    from fcard_fset_of_list [OF this] show "fcard (fmdom atys) = length (Fields desc)"
      unfolding d by simp
  qed
  moreover have "ImpliedTypeForMessageDesc (withoutOneofs desc) = Inr T"
    using assms by (simp add: ImpliedTypeForMessageDesc_def withoutOneofs_implied(1))
  ultimately show ?thesis using T d each by auto
qed


lemma WithOneOf_type:
  "ImpliedTypeForMessageDesc WithOneOf_desc =
     Inr (cty_Object (fmupd ''b'' cty_String (fmupd ''a'' cty_String
       (fmupd ''outside'' cty_String fmempty))))"
  by (simp add: ImpliedTypeForMessageDesc_def WithOneOf_desc_def
      impliedTypeForMessageDesc.simps impliedTypeForMessageDesc_loop.simps
      impliedTypeForFieldDesc_not_map IsMap_iff impliedTypeForFieldKind.simps scalarField_def)


theorem message_type_attributes_witness:
  "\<exists>atys. ImpliedTypeForMessageDesc WithOneOf_desc = Inr (cty_Object atys) \<and>
     fmdom atys = {|''outside'', ''a'', ''b''|} \<and> fcard (fmdom atys) = 3 \<and>
     fmlookup atys ''a'' = Some cty_String \<and>
     ImpliedTypeForMessageDesc (withoutOneofs WithOneOf_desc) = Inr (cty_Object atys)"
proof -
  let ?atys = "fmupd ''b'' cty_String (fmupd ''a'' cty_String
       (fmupd ''outside'' cty_String fmempty))"
  have names: "map Name (Fields WithOneOf_desc) = [''outside'', ''a'', ''b'']"
    by (simp add: WithOneOf_desc_def scalarField_def)
  from message_type_attributes [OF WithOneOf_type] obtain atys where
    a: "cty_Object ?atys = cty_Object atys" and
    d: "fmdom atys = fset_of_list (map Name (Fields WithOneOf_desc))" and
    c: "distinct (map Name (Fields WithOneOf_desc)) \<longrightarrow>
        fcard (fmdom atys) = length (Fields WithOneOf_desc) \<and>
        (\<forall>f\<in>set (Fields WithOneOf_desc). \<exists>aty.
           impliedTypeForFieldDesc f [GetAttrStep (Name f)] = Inr aty \<and>
           fmlookup atys (Name f) = Some aty)" and
    w: "ImpliedTypeForMessageDesc (withoutOneofs WithOneOf_desc) = Inr (cty_Object ?atys)"
    by blast
  from a have eq: "atys = ?atys" by simp
  have 1: "fmdom ?atys = {|''outside'', ''a'', ''b''|}"
    using d unfolding eq names by simp
  have "length (Fields WithOneOf_desc) = 3" by (simp add: WithOneOf_desc_def)
  with c have 2: "fcard (fmdom ?atys) = 3"
    unfolding eq names by simp
  have 3: "fmlookup ?atys ''a'' = Some cty_String" by simp
  from WithOneOf_type 1 2 3 w show ?thesis by blast
qed


subsection \<open>Kinds and errors\<close>

lemma attrNames_append [simp]: "attrNames (p @ q) = attrNames p @ attrNames q"
  by (induction p rule: attrNames.induct) simp_all










lemma supportedKind_iff:
  "supportedKind k \<longleftrightarrow>
     k = BoolKind \<or>
     k \<in> {Int32Kind, Sint32Kind, Uint32Kind, Int64Kind, Sint64Kind,
                Uint64Kind, Sfixed32Kind, Fixed32Kind, FloatKind, Sfixed64Kind,
                Fixed64Kind, DoubleKind} \<or>
     k \<in> {StringKind, BytesKind, EnumKind} \<or> k \<in> {MessageKind, GroupKind}"
  by (cases k) (simp_all add: supportedKind_def)







section \<open>Properties of the encoder of scalar kinds\<close>

declare fromProtobufMessage.simps [simp del]
  fromProtobufMessage_loop.simps [simp del]
  fromProtobufFieldValue.simps [simp del]
  fromProtobufFieldValue_stringRange.simps [simp del]
  fromProtobufFieldValue_otherRange.simps [simp del]
  fromProtobufFieldValue_listLoop.simps [simp del]
  fromProtobufFieldKindValue.simps [simp del]









lemma EnumByNumber_Some:
  "EnumByNumber ds n = Some d \<Longrightarrow> d \<in> set ds \<and> EnumValueNumber d = n"
  by (induction ds) (auto split: if_splits)

lemma EnumByNumber_None:
  "EnumByNumber ds n = None \<longleftrightarrow> (\<forall>d\<in>set ds. EnumValueNumber d \<noteq> n)"
  by (induction ds) auto

text \<open>
  Claim C7. A field of enum kind is encoded as the declared name of an
  enum value with the stored number. The encoder fails there exactly when no
  declared value has that number, and the error then carries the number
  and the path of the field: for a singular field of a message, the path
  of the message extended by the field's name.
\<close>

theorem enum_encoding:
  assumes "Kind field = EnumKind" and "Enum field = Some enum"
  shows "((\<exists>d\<in>set (Values enum). EnumValueNumber d = num) \<longrightarrow>
            (\<exists>d\<in>set (Values enum). EnumValueNumber d = num \<and>
               fromProtobufFieldKindValue (PEnum num) field path =
                 Inr (StringVal (EnumValueName d)))) \<and>
         ((\<exists>err. fromProtobufFieldKindValue (PEnum num) field path = Inl err) \<longleftrightarrow>
            \<not> (\<exists>d\<in>set (Values enum). EnumValueNumber d = num)) \<and>
         (\<forall>err. fromProtobufFieldKindValue (PEnum num) field path = Inl err \<longrightarrow>
            err = PathError path ''value %d is not part of the enumeration''
                    [ArgInt (sint num)]) \<and>
         (Cardinality field \<noteq> Repeated \<and> (HasPresence field \<longrightarrow> Has msg field) \<and>
          Get msg field = PEnum num \<and>
          \<not> (\<exists>d\<in>set (Values enum). EnumValueNumber d = num) \<longrightarrow>
            fromProtobufMessage_loop msg (field # rest) root attrs =
              Inl (PathError (root @ [GetAttrStep (Name field)])
                     ''value %d is not part of the enumeration'' [ArgInt (sint num)]))"
proof -
  have eq: "fromProtobufFieldKindValue (PEnum num) field p =
      (case EnumByNumber (Values enum) num of
         None \<Rightarrow> Inl (PathError p ''value %d is not part of the enumeration''
                        [ArgInt (sint num)])
       | Some d \<Rightarrow> Inr (StringVal (EnumValueName d)))" for p
    using assms by (simp add: fromProtobufFieldKindValue.simps Value_Enum_def)
  show ?thesis
  proof (cases "EnumByNumber (Values enum) num")
    case None
    then have no: "\<forall>d\<in>set (Values enum). EnumValueNumber d \<noteq> num"
      by (simp add: EnumByNumber_None)
    have "\<not> IsMap field \<Longrightarrow> \<not> IsList field \<Longrightarrow> Get msg field = PEnum num \<Longrightarrow>
        HasPresence field \<longrightarrow> Has msg field \<Longrightarrow>
        fromProtobufMessage_loop msg (field # rest) root attrs =
          Inl (PathError (root @ [GetAttrStep (Name field)])
                 ''value %d is not part of the enumeration'' [ArgInt (sint num)])"
      by (auto simp: fromProtobufMessage_loop.simps fromProtobufFieldValue.simps eq None)
    moreover have "Cardinality field \<noteq> Repeated \<Longrightarrow> \<not> IsMap field \<and> \<not> IsList field"
      by (simp add: IsMap_def IsList_def)
    ultimately show ?thesis
      using no by (auto simp: eq None)
  next
    case (Some d)
    then have "d \<in> set (Values enum)" "EnumValueNumber d = num"
      by (auto dest: EnumByNumber_Some)
    then show ?thesis
      by (auto simp: eq Some)
  qed
qed

theorem enum_encoding_witness:
  "fromProtobufFieldKindValue (PEnum 3) t_enum [GetAttrStep ''t_enum''] =
     Inr (StringVal ''d'') \<and>
   fromProtobufFieldKindValue (PEnum 7) t_enum [GetAttrStep ''t_enum''] =
     Inl (PathError [GetAttrStep ''t_enum''] ''value %d is not part of the enumeration''
            [ArgInt 7]) \<and>
   fromProtobufMessage_loop (Msg WithEnum_desc [(2, PEnum 7)]) [t_enum] [] fmempty =
     Inl (PathError [GetAttrStep ''t_enum''] ''value %d is not part of the enumeration''
            [ArgInt 7])"
  using enum_encoding [of t_enum Things_desc 3 "[GetAttrStep ''t_enum'']"]
    enum_encoding [of t_enum Things_desc 7 "[GetAttrStep ''t_enum'']"
      "Msg WithEnum_desc [(2, PEnum 7)]" "[]" "[]" fmempty]
  by (auto simp: t_enum_def Things_desc_def Get_def Has_def)



section \<open>The encoded value has the derived type\<close>

lemma conforms_Default: "conforms (Default fd) fd"
  by (auto simp: Default_def split: option.splits)

lemma conforms_Get:
  assumes "conforms_message msg" "fd \<in> set (Fields (Descriptor msg))"
  shows "conforms (Get msg fd) fd"
proof (cases "map_of (Populated msg) (FieldNumber fd)")
  case None
  then show ?thesis by (simp add: Get_def conforms_Default)
next
  case (Some x)
  then have "(FieldNumber fd, x) \<in> set (Populated msg)" by (rule map_of_SomeD)
  with assms have "conforms x fd" by (cases msg) force
  with Some show ?thesis by (simp add: Get_def)
qed

lemma conforms_MapKey_Value: "conforms (MapKey_Value k) fd"
  by (cases k) (simp_all add: MapKey_Value_def)


subsection \<open>cty constructors on elements of one type\<close>

lemma elementType_same:
  "\<forall>x\<in>set vals. ty x = T \<Longrightarrow> T \<noteq> cty_DynamicPseudoType \<Longrightarrow> elementType T vals = Some T"
  by (induction vals) auto

lemma elementType_start:
  "vals \<noteq> [] \<Longrightarrow> \<forall>x\<in>set vals. ty x = T \<Longrightarrow> T \<noteq> cty_DynamicPseudoType \<Longrightarrow>
   elementType cty_DynamicPseudoType vals = Some T"
  by (cases vals) (auto simp: elementType_same)

lemma ListVal_same:
  "vals \<noteq> [] \<Longrightarrow> \<forall>x\<in>set vals. ty x = T \<Longrightarrow> T \<noteq> cty_DynamicPseudoType \<Longrightarrow>
   ListVal vals = Inr (Value (cty_List T) (RList (map v vals)))"
  using elementType_start [of vals T] by (simp add: ListVal_def)

lemma SetVal_same:
  "vals \<noteq> [] \<Longrightarrow> \<forall>x\<in>set vals. ty x = T \<Longrightarrow> T \<noteq> cty_DynamicPseudoType \<Longrightarrow>
   SetVal vals = Inr (Value (cty_Set T) (RSet (fset_of_list (map v vals))))"
  using elementType_start [of vals T] by (simp add: SetVal_def)

lemma MapVal_same:
  assumes "vals \<noteq> fmempty" "\<forall>x\<in>fmran' vals. ty x = T" "T \<noteq> cty_DynamicPseudoType"
  shows "MapVal vals = Inr (Value (cty_Map T) (RMap (fmmap v vals)))"
proof -
  from assms(1) obtain k x where kx: "fmlookup vals k = Some x"
    by (metis fmap_ext fmempty_lookup not_None_eq)
  then have x: "x |\<in>| fmran vals" by (rule fmranI)
  have "ty |`| fmran vals = {|T|}"
  proof (rule fset_eqI)
    fix t
    show "t |\<in>| ty |`| fmran vals \<longleftrightarrow> t |\<in>| {|T|}"
      using assms(2) x by (auto simp: fmran'_alt_def)
  qed
  then have "ffilter (\<lambda>t. t \<noteq> cty_DynamicPseudoType) (ty |`| fmran vals) = {|T|}"
    using assms(3) by auto
  then show ?thesis
    using assms(1) by (simp add: MapVal_def fcard_finsert_if)
qed

subsection \<open>Unfolding the encoder\<close>

lemma IsList_iff: "IsList field \<longleftrightarrow> Cardinality field = Repeated \<and> \<not> IsMap field"
  by (simp add: IsList_def)

lemma fromProtobufFieldValue_singular:
  "\<not> IsMap field \<Longrightarrow> \<not> IsList field \<Longrightarrow>
   fromProtobufFieldValue rawV field path = fromProtobufFieldKindValue rawV field path"
  by (subst fromProtobufFieldValue.simps) simp

lemma fromProtobufFieldValue_list:
  "\<not> IsMap field \<Longrightarrow> IsList field \<Longrightarrow>
   fromProtobufFieldValue rawV field path =
     (case Value_List rawV of
        None \<Rightarrow> Inl Panic
      | Some rawList \<Rightarrow>
          (case fromProtobufFieldValue_listLoop rawList 0 field path [] of
             Inl err \<Rightarrow> Inl err
           | Inr elems \<Rightarrow>
               if elems = [] then
                 (case impliedTypeForFieldKind field
                         (path @ [IndexStep (UnknownVal cty_Number)]) of
                    Inl err \<Rightarrow> Inl err
                  | Inr ety \<Rightarrow> Inr (ListValEmpty ety))
               else ListVal elems))"
  by (subst fromProtobufFieldValue.simps) simp

lemma fromProtobufFieldValue_string_map:
  assumes "IsMap field" "Message field = Some sub"
    "ByNumber (Fields sub) 1 = Some keyField" "Kind keyField = StringKind"
  shows "fromProtobufFieldValue rawV field path =
     (case Value_Map rawV of
        None \<Rightarrow> Inl Panic
      | Some rawMap \<Rightarrow>
          (case fromProtobufFieldValue_stringRange rawMap
                  (ByNumber (Fields sub) 2) path fmempty of
             Inl err \<Rightarrow> Inl err
           | Inr elems \<Rightarrow>
               if elems = fmempty then
                 (case ByNumber (Fields sub) 2 of
                    None \<Rightarrow> Inl Panic
                  | Some valField \<Rightarrow>
                      (case impliedTypeForFieldDesc valField
                              (path @ [IndexStep (UnknownVal cty_String)]) of
                         Inl err \<Rightarrow> Inl err
                       | Inr ety \<Rightarrow> Inr (MapValEmpty ety)))
               else MapVal elems))"
  using assms by (subst fromProtobufFieldValue.simps) (simp split: option.splits)

lemma fromProtobufFieldValue_other_map:
  assumes "IsMap field" "Message field = Some sub"
    "ByNumber (Fields sub) 1 = Some keyField" "Kind keyField \<noteq> StringKind"
  shows "fromProtobufFieldValue rawV field path =
     (case Value_Map rawV of
        None \<Rightarrow> Inl Panic
      | Some rawMap \<Rightarrow>
          (case fromProtobufFieldValue_otherRange rawMap keyField
                  (ByNumber (Fields sub) 2) path [] of
             Inl err \<Rightarrow> Inl err
           | Inr elems \<Rightarrow>
               if elems = [] then
                 (case impliedTypeForFieldDesc keyField (path @ [IndexStep DynamicVal]) of
                    Inl err \<Rightarrow> Inl err
                  | Inr keyTy \<Rightarrow>
                      (case ByNumber (Fields sub) 2 of
                         None \<Rightarrow> Inl Panic
                       | Some valField \<Rightarrow>
                           (case impliedTypeForFieldDesc valField
                                   (path @ [IndexStep DynamicVal]) of
                              Inl err \<Rightarrow> Inl err
                            | Inr valTy \<Rightarrow>
                                Inr (SetValEmpty (cty_Object
                                  (fmupd ''value'' valTy (fmupd ''key'' keyTy fmempty)))))))
               else SetVal elems))"
  using assms by (subst fromProtobufFieldValue.simps) (simp split: option.splits)

lemma fromProtobufFieldValue_map_Panic:
  assumes "IsMap field" "Message field = Some sub" "ByNumber (Fields sub) 1 = None"
  shows "fromProtobufFieldValue rawV field path = Inl Panic"
  using assms by (subst fromProtobufFieldValue.simps) (simp split: option.splits)

lemma Value_Map_Some: "Value_Map rawV = Some es \<longleftrightarrow> rawV = PMap es"
  by (cases rawV) (simp_all add: Value_Map_def)

lemma Value_List_Some: "Value_List rawV = Some xs \<longleftrightarrow> rawV = PList xs"
  by (cases rawV) (simp_all add: Value_List_def)

lemma Value_Message_Some: "Value_Message rawV = Some m \<longleftrightarrow> rawV = PMessage m"
  by (cases rawV) (simp_all add: Value_Message_def)

subsection \<open>Derived types\<close>

lemma loop_Object:
  "impliedTypeForMessageDesc_loop fields path atys = Inr T \<Longrightarrow> \<exists>a. T = cty_Object a"
  using loop_attributes by blast

lemma impliedTypeForFieldKind_not_Dynamic:
  assumes "impliedTypeForFieldKind field path = Inr T"
  shows "T \<noteq> cty_DynamicPseudoType"
proof (cases "Kind field \<in> {MessageKind, GroupKind}")
  case True
  with assms obtain sub where "impliedTypeForMessageDesc sub path = Inr T"
    by (cases "Message field") (auto simp: impliedTypeForFieldKind.simps)
  then show ?thesis
    by (auto simp: impliedTypeForMessageDesc.simps dest: loop_Object)
next
  case False
  with assms show ?thesis
    by (auto simp: impliedTypeForFieldKind.simps split: if_splits)
qed

lemma impliedTypeForFieldDesc_not_Dynamic:
  assumes "impliedTypeForFieldDesc field path = Inr T"
  shows "T \<noteq> cty_DynamicPseudoType"
proof (cases "IsMap field")
  case False
  with assms show ?thesis
    by (auto simp: impliedTypeForFieldDesc_not_map split: sum.splits if_splits
        dest: impliedTypeForFieldKind_not_Dynamic)
next
  case True
  with assms show ?thesis
    apply (subst (asm) impliedTypeForFieldDesc.simps)
    apply (auto simp: IsMap_iff split: option.splits sum.splits if_splits)
    done
qed


subsection \<open>The encoder, kind by kind\<close>

lemma fromProtobufFieldKindValue_Bool:
  "Kind field = BoolKind \<Longrightarrow>
   fromProtobufFieldKindValue rawV field path =
     (case Value_Bool rawV of
        None \<Rightarrow> Inl Panic
      | Some b \<Rightarrow> if b then Inr cty_True else Inr cty_False)"
  by (subst fromProtobufFieldKindValue.simps) simp

lemma fromProtobufFieldKindValue_Int:
  "Kind field \<in> {Int32Kind, Sint32Kind, Sfixed32Kind, Int64Kind, Sint64Kind, Sfixed64Kind} \<Longrightarrow>
   fromProtobufFieldKindValue rawV field path =
     (case Value_Int rawV of None \<Rightarrow> Inl Panic | Some n \<Rightarrow> Inr (NumberIntVal n))"
  by (subst fromProtobufFieldKindValue.simps) auto

lemma fromProtobufFieldKindValue_Uint:
  "Kind field \<in> {Uint32Kind, Fixed32Kind, Uint64Kind, Fixed64Kind} \<Longrightarrow>
   fromProtobufFieldKindValue rawV field path =
     (case Value_Uint rawV of None \<Rightarrow> Inl Panic | Some n \<Rightarrow> Inr (NumberUIntVal n))"
  by (subst fromProtobufFieldKindValue.simps) auto

lemma fromProtobufFieldKindValue_Float:
  "Kind field \<in> {FloatKind, DoubleKind} \<Longrightarrow>
   fromProtobufFieldKindValue rawV field path =
     (case Value_Float rawV of None \<Rightarrow> Inl Panic | Some x \<Rightarrow> NumberFloatVal x)"
  by (subst fromProtobufFieldKindValue.simps) auto

lemma fromProtobufFieldKindValue_String:
  "Kind field = StringKind \<Longrightarrow>
   fromProtobufFieldKindValue rawV field path =
     (case Value_String rawV of None \<Rightarrow> Inl Unrendered | Some s \<Rightarrow> Inr (StringVal s))"
  by (subst fromProtobufFieldKindValue.simps) simp

lemma fromProtobufFieldKindValue_Bytes:
  "Kind field = BytesKind \<Longrightarrow>
   fromProtobufFieldKindValue rawV field path =
     (case Value_Bytes rawV of
        None \<Rightarrow> Inl Panic
      | Some bs \<Rightarrow> Inr (StringVal (EncodeToString bs)))"
  by (subst fromProtobufFieldKindValue.simps) simp

lemma fromProtobufFieldKindValue_Enum:
  "Kind field = EnumKind \<Longrightarrow>
   fromProtobufFieldKindValue rawV field path =
     (case Value_Enum rawV of
        None \<Rightarrow> Inl Panic
      | Some num \<Rightarrow>
          (case Enum field of
             None \<Rightarrow> Inl Panic
           | Some enum \<Rightarrow>
               (case EnumByNumber (Values enum) num of
                  None \<Rightarrow>
                    Inl (PathError path ''value %d is not part of the enumeration''
                           [ArgInt (sint num)])
                | Some desc \<Rightarrow> Inr (StringVal (EnumValueName desc)))))"
  by (subst fromProtobufFieldKindValue.simps) simp

lemma fromProtobufFieldKindValue_Message:
  "Kind field \<in> {MessageKind, GroupKind} \<Longrightarrow>
   fromProtobufFieldKindValue rawV field path =
     (case Value_Message rawV of
        None \<Rightarrow> Inl Panic
      | Some sub \<Rightarrow> fromProtobufMessage sub path)"
  by (subst fromProtobufFieldKindValue.simps) auto

lemma fromProtobufFieldKindValue_unsupported:
  "\<not> supportedKind (Kind field) \<Longrightarrow>
   fromProtobufFieldKindValue rawV field path =
     Inl (PathError path ''no cty equivalent for protobuf kind %s'' [ArgKind (Kind field)])"
  by (subst fromProtobufFieldKindValue.simps) (auto simp: supportedKind_iff)

lemma impliedTypeForFieldKind_Message:
  "Kind field \<in> {MessageKind, GroupKind} \<Longrightarrow>
   impliedTypeForFieldKind field path =
     (case Message field of
        None \<Rightarrow> Inl Panic
      | Some sub \<Rightarrow> impliedTypeForMessageDesc sub path)"
  by (subst impliedTypeForFieldKind.simps) auto

lemma impliedTypeForFieldKind_scalar:
  "Kind field = BoolKind \<Longrightarrow> impliedTypeForFieldKind field path = Inr cty_Bool"
  "Kind field \<in> {Int32Kind, Sint32Kind, Sfixed32Kind, Int64Kind, Sint64Kind, Sfixed64Kind} \<Longrightarrow>
   impliedTypeForFieldKind field path = Inr cty_Number"
  "Kind field \<in> {Uint32Kind, Fixed32Kind, Uint64Kind, Fixed64Kind} \<Longrightarrow>
   impliedTypeForFieldKind field path = Inr cty_Number"
  "Kind field \<in> {FloatKind, DoubleKind} \<Longrightarrow> impliedTypeForFieldKind field path = Inr cty_Number"
  "Kind field \<in> {StringKind, BytesKind, EnumKind} \<Longrightarrow>
   impliedTypeForFieldKind field path = Inr cty_String"
  by (subst impliedTypeForFieldKind.simps; auto)+

lemma kind_cases:
  obtains "Kind field = BoolKind"
  | "Kind field \<in> {Int32Kind, Sint32Kind, Sfixed32Kind, Int64Kind, Sint64Kind, Sfixed64Kind}"
  | "Kind field \<in> {Uint32Kind, Fixed32Kind, Uint64Kind, Fixed64Kind}"
  | "Kind field \<in> {FloatKind, DoubleKind}"
  | "Kind field = StringKind" | "Kind field = BytesKind" | "Kind field = EnumKind"
  | "Kind field \<in> {MessageKind, GroupKind}"
  | "\<not> supportedKind (Kind field)"
  by (cases "Kind field") (auto simp: supportedKind_def)

lemma scalar_kind_type:
  assumes "Kind field \<notin> {MessageKind, GroupKind}"
    and enc: "fromProtobufFieldKindValue rawV field path = Inr V"
    and der: "impliedTypeForFieldKind field p = Inr T"
  shows "ty V = T"
proof (cases field rule: kind_cases)
  case 1
  with enc der show ?thesis
    by (auto simp: fromProtobufFieldKindValue_Bool impliedTypeForFieldKind_scalar
        cty_True_def cty_False_def split: option.splits if_splits)
next
  case 2
  with enc der show ?thesis
    by (auto simp: fromProtobufFieldKindValue_Int impliedTypeForFieldKind_scalar
        NumberIntVal_def split: option.splits)
next
  case 3
  with enc der show ?thesis
    by (auto simp: fromProtobufFieldKindValue_Uint impliedTypeForFieldKind_scalar
        NumberUIntVal_def split: option.splits)
next
  case 4
  with enc der show ?thesis
    by (auto simp: fromProtobufFieldKindValue_Float impliedTypeForFieldKind_scalar
        NumberFloatVal_def split: option.splits float64.splits)
next
  case 5
  with enc der show ?thesis
    by (auto simp: fromProtobufFieldKindValue_String impliedTypeForFieldKind_scalar
        StringVal_def split: option.splits)
next
  case 6
  with enc der show ?thesis
    by (auto simp: fromProtobufFieldKindValue_Bytes impliedTypeForFieldKind_scalar
        StringVal_def split: option.splits)
next
  case 7
  with enc der show ?thesis
    by (auto simp: fromProtobufFieldKindValue_Enum impliedTypeForFieldKind_scalar
        StringVal_def split: option.splits)
next
  case 8
  with assms show ?thesis by simp
next
  case 9
  with enc show ?thesis by (simp add: fromProtobufFieldKindValue_unsupported)
qed


subsection \<open>The types of encoded values\<close>

lemmas encoder_induct =
  fromProtobufMessage_fromProtobufMessage_loop_fromProtobufFieldValue_fromProtobufFieldValue_stringRange_fromProtobufFieldValue_otherRange_fromProtobufFieldValue_listLoop_fromProtobufFieldKindValue.induct

lemma stringRange_None:
  "fromProtobufFieldValue_stringRange es None path elems = Inr res \<Longrightarrow> es = [] \<and> res = elems"
  by (cases es) (auto simp: fromProtobufFieldValue_stringRange.simps)

lemma otherRange_None:
  "fromProtobufFieldValue_otherRange es keyField None path elems = Inr res \<Longrightarrow>
   es = [] \<and> res = elems"
  by (cases es) (auto simp: fromProtobufFieldValue_otherRange.simps split: sum.splits)

lemma ty_ObjectVal [simp]: "ty (ObjectVal attrs) = cty_Object (fmmap ty attrs)"
  by (simp add: ObjectVal_def)

lemma ty_NullVal [simp]: "ty (NullVal t) = t"
  by (simp add: NullVal_def)

lemma fmran'_fmupd:
  "x \<in> fmran' (fmupd k y m) \<Longrightarrow> x = y \<or> x \<in> fmran' m"
  by (auto simp: fmlookup_ran'_iff split: if_splits)

lemma impliedTypeForFieldDesc_unique:
  "impliedTypeForFieldDesc field p1 = Inr T1 \<Longrightarrow> impliedTypeForFieldDesc field p2 = Inr T2 \<Longrightarrow>
   T1 = T2"
  using impliedTypeForFieldDesc_path [of field p1 T1 p2] by simp

lemma impliedTypeForFieldKind_unique:
  "impliedTypeForFieldKind field p1 = Inr T1 \<Longrightarrow> impliedTypeForFieldKind field p2 = Inr T2 \<Longrightarrow>
   T1 = T2"
  using impliedTypeForFieldKind_path [of field p1 T1 p2] by simp

lemma case_option_Inr:
  "(case x of None \<Rightarrow> Inl e | Some y \<Rightarrow> f y) = Inr V \<Longrightarrow> \<exists>y. x = Some y \<and> f y = Inr V"
  by (cases x) auto

lemma case_sum_Inr:
  "(case x of Inl e \<Rightarrow> Inl e | Inr y \<Rightarrow> f y) = Inr V \<Longrightarrow> \<exists>y. x = Inr y \<and> f y = Inr V"
  by (cases x) auto

lemma encoder_types:
  "conforms_message msg \<longrightarrow>
     (\<forall>V T p. fromProtobufMessage msg path = Inr V \<longrightarrow>
        impliedTypeForMessageDesc (Descriptor msg) p = Inr T \<longrightarrow> ty V = T)"
  "(\<forall>f\<in>set fields. conforms (Get msg2 f) f) \<longrightarrow>
     (\<forall>V T p. fromProtobufMessage_loop msg2 fields path attrs = Inr V \<longrightarrow>
        impliedTypeForMessageDesc_loop fields p (fmmap ty attrs) = Inr T \<longrightarrow> ty V = T)"
  "conforms rawV field \<longrightarrow>
     (\<forall>V T p. fromProtobufFieldValue rawV field path = Inr V \<longrightarrow>
        impliedTypeForFieldDesc field p = Inr T \<longrightarrow> ty V = T)"
  "\<forall>vf. valField = Some vf \<longrightarrow> (\<forall>e\<in>set es. conforms (snd e) vf) \<longrightarrow>
     (\<forall>res T p. fromProtobufFieldValue_stringRange es valField path elems = Inr res \<longrightarrow>
        impliedTypeForFieldDesc vf p = Inr T \<longrightarrow>
        (\<forall>x\<in>fmran' elems. ty x = T) \<longrightarrow> (\<forall>x\<in>fmran' res. ty x = T))"
  "\<forall>vf. valField2 = Some vf \<longrightarrow> (\<forall>e\<in>set es2. conforms (snd e) vf) \<longrightarrow>
     (\<forall>res K V p1 p2.
        fromProtobufFieldValue_otherRange es2 keyField valField2 path elems2 = Inr res \<longrightarrow>
        impliedTypeForFieldDesc keyField p1 = Inr K \<longrightarrow>
        impliedTypeForFieldDesc vf p2 = Inr V \<longrightarrow>
        (\<forall>x\<in>set elems2. ty x = cty_Object (fmupd ''value'' V (fmupd ''key'' K fmempty))) \<longrightarrow>
        (\<forall>x\<in>set res. ty x = cty_Object (fmupd ''value'' V (fmupd ''key'' K fmempty))))"
  "(\<forall>x\<in>set xs. conforms x field3) \<longrightarrow>
     (\<forall>res B p. fromProtobufFieldValue_listLoop xs i field3 path elems3 = Inr res \<longrightarrow>
        impliedTypeForFieldKind field3 p = Inr B \<longrightarrow>
        (\<forall>x\<in>set elems3. ty x = B) \<longrightarrow> (\<forall>x\<in>set res. ty x = B))"
  "conforms rawV4 field4 \<longrightarrow>
     (\<forall>V T p. fromProtobufFieldKindValue rawV4 field4 path = Inr V \<longrightarrow>
        impliedTypeForFieldKind field4 p = Inr T \<longrightarrow> ty V = T)"
proof (induction msg path and msg2 fields path attrs and rawV field path
    and es valField path elems and es2 keyField valField2 path elems2
    and xs i field3 path elems3 and rawV4 field4 path rule: encoder_induct)
  case (1 msg path)
  show ?case
  proof (intro impI allI)
    fix V T p
    assume conf: "conforms_message msg"
      and enc: "fromProtobufMessage msg path = Inr V"
      and der: "impliedTypeForMessageDesc (Descriptor msg) p = Inr T"
    from conf have "\<forall>f\<in>set (Fields (Descriptor msg)). conforms (Get msg f) f"
      by (simp add: conforms_Get)
    moreover from enc
    have "fromProtobufMessage_loop msg (Fields (Descriptor msg)) path fmempty = Inr V"
      by (simp add: fromProtobufMessage.simps)
    moreover from der
    have "impliedTypeForMessageDesc_loop (Fields (Descriptor msg)) p (fmmap ty fmempty) = Inr T"
      by (simp add: impliedTypeForMessageDesc.simps)
    ultimately show "ty V = T"
      using 1 [rule_format] by blast
  qed
next
  case (2 msg path attrs)
  show ?case
    by (auto simp: fromProtobufMessage_loop.simps impliedTypeForMessageDesc_loop.simps)
next
  case (3 msg field rest path attrs)
  show ?case
  proof (intro impI allI)
    fix V T p
    let ?name = "Name field"
    assume conf: "\<forall>f\<in>set (field # rest). conforms (Get msg f) f"
      and enc: "fromProtobufMessage_loop msg (field # rest) path attrs = Inr V"
      and der: "impliedTypeForMessageDesc_loop (field # rest) p (fmmap ty attrs) = Inr T"
    from der obtain aty where
      fd: "impliedTypeForFieldDesc field (p @ [GetAttrStep ?name]) = Inr aty" and
      dr: "impliedTypeForMessageDesc_loop rest p (fmupd ?name aty (fmmap ty attrs)) = Inr T"
      by (auto simp: impliedTypeForMessageDesc_loop.simps split: sum.splits)
    from conf have crest: "\<forall>f\<in>set rest. conforms (Get msg f) f" by simp
    show "ty V = T"
    proof (cases "HasPresence field \<and> \<not> Has msg field")
      case True
      with enc obtain b where
        b: "impliedTypeForFieldDesc field (path @ [GetAttrStep ?name]) = Inr b" and
        er: "fromProtobufMessage_loop msg rest path (fmupd ?name (NullVal b) attrs) = Inr V"
        by (auto simp: fromProtobufMessage_loop.simps split: sum.splits)
      from b fd have "b = aty" by (rule impliedTypeForFieldDesc_unique)
      with dr have "impliedTypeForMessageDesc_loop rest p
          (fmmap ty (fmupd ?name (NullVal b) attrs)) = Inr T" by (simp add: fmmap_fmupd)
      with "3.IH"(1) [OF True b, THEN mp, OF crest, rule_format, OF er] show ?thesis .
    next
      case False
      with enc obtain val where
        ev: "fromProtobufFieldValue (Get msg field) field (path @ [GetAttrStep ?name]) = Inr val"
        and er: "fromProtobufMessage_loop msg rest path (fmupd ?name val attrs) = Inr V"
        by (auto simp: fromProtobufMessage_loop.simps split: sum.splits)
      from conf have "conforms (Get msg field) field" by simp
      from "3.IH"(2) [OF False, rule_format, OF this ev fd] have "ty val = aty" .
      with dr have "impliedTypeForMessageDesc_loop rest p
          (fmmap ty (fmupd ?name val attrs)) = Inr T" by (simp add: fmmap_fmupd)
      with "3.IH"(3) [OF False ev, THEN mp, OF crest, rule_format, OF er] show ?thesis .
    qed
  qed
next
  case (4 rawV field path)
  show ?case
  proof (intro impI allI)
    fix V T p
    assume conf: "conforms rawV field"
      and enc: "fromProtobufFieldValue rawV field path = Inr V"
      and der: "impliedTypeForFieldDesc field p = Inr T"
    show "ty V = T"
    proof (cases "IsMap field")
      case nmap: False
      from der nmap obtain B where
        kd: "impliedTypeForFieldKind field p = Inr B" and
        T: "T = (if Cardinality field = Repeated then cty_List B else B)"
        by (auto simp: impliedTypeForFieldDesc_not_map split: sum.splits if_splits)
      show ?thesis
      proof (cases "IsList field")
        case False
        with nmap enc have "fromProtobufFieldKindValue rawV field path = Inr V"
          by (simp add: fromProtobufFieldValue_singular)
        from "4.IH"(4) [OF nmap False, rule_format, OF conf this kd] have "ty V = B" .
        moreover from False nmap have "Cardinality field \<noteq> Repeated"
          by (simp add: IsList_iff)
        ultimately show ?thesis using T by simp
      next
        case True
        then have rep: "Cardinality field = Repeated" by (simp add: IsList_iff)
        from enc nmap True have e1:
          "(case Value_List rawV of
              None \<Rightarrow> Inl Panic
            | Some rawList \<Rightarrow>
                (case fromProtobufFieldValue_listLoop rawList 0 field path [] of
                   Inl err \<Rightarrow> Inl err
                 | Inr elems \<Rightarrow>
                     if elems = [] then
                       (case impliedTypeForFieldKind field
                               (path @ [IndexStep (UnknownVal cty_Number)]) of
                          Inl err \<Rightarrow> Inl err
                        | Inr ety \<Rightarrow> Inr (ListValEmpty ety))
                     else ListVal elems)) = Inr V"
          by (simp add: fromProtobufFieldValue_list)
        from case_option_Inr [OF e1] obtain rawList where
          rl: "Value_List rawV = Some rawList" and
          e2: "(case fromProtobufFieldValue_listLoop rawList 0 field path [] of
                   Inl err \<Rightarrow> Inl err
                 | Inr elems \<Rightarrow>
                     if elems = [] then
                       (case impliedTypeForFieldKind field
                               (path @ [IndexStep (UnknownVal cty_Number)]) of
                          Inl err \<Rightarrow> Inl err
                        | Inr ety \<Rightarrow> Inr (ListValEmpty ety))
                     else ListVal elems) = Inr V"
          by blast
        from case_sum_Inr [OF e2] obtain res where
          loop: "fromProtobufFieldValue_listLoop rawList 0 field path [] = Inr res" and
          fin: "(if res = [] then
                  (case impliedTypeForFieldKind field
                          (path @ [IndexStep (UnknownVal cty_Number)]) of
                     Inl err \<Rightarrow> Inl err
                   | Inr ety \<Rightarrow> Inr (ListValEmpty ety))
                else ListVal res) = Inr V"
          by blast
        from rl have rawV: "rawV = PList rawList" by (simp add: Value_List_Some)
        with conf have c: "\<forall>x\<in>set rawList. conforms x field" by simp
        have Bn: "B \<noteq> cty_DynamicPseudoType"
          using kd by (rule impliedTypeForFieldKind_not_Dynamic)
        have e0: "\<forall>x\<in>set []. ty x = B" by simp
        from "4.IH"(3) [OF nmap True rl, THEN mp, OF c, THEN spec, THEN spec, THEN spec,
            THEN mp, OF loop, THEN mp, OF kd, THEN mp, OF e0]
        have all: "\<forall>x\<in>set res. ty x = B" .
        show ?thesis
        proof (cases "res = []")
          case True
          with fin obtain ety where
            "impliedTypeForFieldKind field (path @ [IndexStep (UnknownVal cty_Number)]) = Inr ety"
            and V: "V = ListValEmpty ety"
            by (auto split: sum.splits)
          with kd have "ety = B" by (auto dest: impliedTypeForFieldKind_unique)
          with V T rep show ?thesis by (simp add: ListValEmpty_def)
        next
          case False
          with fin have "ListVal res = Inr V" by simp
          with ListVal_same [OF False all Bn] T rep show ?thesis by auto
        qed
      qed
    next
      case True
      then obtain sub where sub: "Message field = Some sub" by (auto simp: IsMap_iff)
      show ?thesis
      proof (cases "ByNumber (Fields sub) 1")
        case None
        with enc True sub show ?thesis
          by (simp add: fromProtobufFieldValue_map_Panic)
      next
        case (Some keyField)
        show ?thesis
        proof (cases "Kind keyField = StringKind")
          case str: True
          note e1 = enc [unfolded fromProtobufFieldValue_string_map [OF True sub Some str]]
          from case_option_Inr [OF e1] obtain rawMap where
            rm: "Value_Map rawV = Some rawMap" and
            e2: "(case fromProtobufFieldValue_stringRange rawMap (ByNumber (Fields sub) 2)
                   path fmempty of
                 Inl err \<Rightarrow> Inl err
               | Inr elems \<Rightarrow>
                   if elems = fmempty then
                     (case ByNumber (Fields sub) 2 of
                        None \<Rightarrow> Inl Panic
                      | Some valField \<Rightarrow>
                          (case impliedTypeForFieldDesc valField
                                  (path @ [IndexStep (UnknownVal cty_String)]) of
                             Inl err \<Rightarrow> Inl err
                           | Inr ety \<Rightarrow> Inr (MapValEmpty ety)))
                   else MapVal elems) = Inr V"
            by blast
          from case_sum_Inr [OF e2] obtain res where
            loop: "fromProtobufFieldValue_stringRange rawMap (ByNumber (Fields sub) 2)
                path fmempty = Inr res" and
            fin: "(if res = fmempty then
                 (case ByNumber (Fields sub) 2 of
                    None \<Rightarrow> Inl Panic
                  | Some valField \<Rightarrow>
                      (case impliedTypeForFieldDesc valField
                              (path @ [IndexStep (UnknownVal cty_String)]) of
                         Inl err \<Rightarrow> Inl err
                       | Inr ety \<Rightarrow> Inr (MapValEmpty ety)))
               else MapVal res) = Inr V"
            by blast
          from loop fin obtain valField where v: "ByNumber (Fields sub) 2 = Some valField"
            by (cases "ByNumber (Fields sub) 2") (auto dest: stringRange_None)
          from der obtain valTy where
            vd: "impliedTypeForFieldDesc valField (p @ [IndexStep (UnknownVal cty_String)]) =
                Inr valTy" and T: "T = cty_Map valTy"
            by (auto simp: impliedTypeForFieldDesc_string_map [OF True sub Some str v]
                split: sum.splits)
          from rm have rawV: "rawV = PMap rawMap" by (simp add: Value_Map_Some)
          with conf sub v have c: "\<forall>e\<in>set rawMap. conforms (snd e) valField" by simp
          have vn: "valTy \<noteq> cty_DynamicPseudoType"
            using vd by (rule impliedTypeForFieldDesc_not_Dynamic)
          have e0: "\<forall>x\<in>fmran' fmempty. ty x = valTy"
            by (auto simp: fmlookup_ran'_iff)
          from "4.IH"(1) [OF True sub rm Some str, THEN spec, THEN mp, OF v, THEN mp, OF c,
              THEN spec, THEN spec, THEN spec, THEN mp, OF loop, THEN mp, OF vd, THEN mp, OF e0]
          have all: "\<forall>x\<in>fmran' res. ty x = valTy" .
          show ?thesis
          proof (cases "res = fmempty")
            case True
            with fin v obtain ety where
              "impliedTypeForFieldDesc valField (path @ [IndexStep (UnknownVal cty_String)]) =
                 Inr ety" and V: "V = MapValEmpty ety"
              by (auto split: sum.splits)
            with vd have "ety = valTy" by (auto dest: impliedTypeForFieldDesc_unique)
            with V T show ?thesis by (simp add: MapValEmpty_def)
          next
            case False
            with fin have "MapVal res = Inr V" by simp
            with MapVal_same [OF False all vn] T show ?thesis by auto
          qed
        next
          case nstr: False
          note e1 = enc [unfolded fromProtobufFieldValue_other_map [OF True sub Some nstr]]
          from case_option_Inr [OF e1] obtain rawMap where
            rm: "Value_Map rawV = Some rawMap" and
            e2: "(case fromProtobufFieldValue_otherRange rawMap keyField
                   (ByNumber (Fields sub) 2) path [] of
                 Inl err \<Rightarrow> Inl err
               | Inr elems \<Rightarrow>
                   if elems = [] then
                     (case impliedTypeForFieldDesc keyField (path @ [IndexStep DynamicVal]) of
                        Inl err \<Rightarrow> Inl err
                      | Inr keyTy \<Rightarrow>
                          (case ByNumber (Fields sub) 2 of
                             None \<Rightarrow> Inl Panic
                           | Some valField \<Rightarrow>
                               (case impliedTypeForFieldDesc valField
                                       (path @ [IndexStep DynamicVal]) of
                                  Inl err \<Rightarrow> Inl err
                                | Inr valTy \<Rightarrow>
                                    Inr (SetValEmpty (cty_Object
                                      (fmupd ''value'' valTy (fmupd ''key'' keyTy fmempty)))))))
                   else SetVal elems) = Inr V"
            by blast
          from case_sum_Inr [OF e2] obtain res where
            loop: "fromProtobufFieldValue_otherRange rawMap keyField
                (ByNumber (Fields sub) 2) path [] = Inr res" and
            fin: "(if res = [] then
                 (case impliedTypeForFieldDesc keyField (path @ [IndexStep DynamicVal]) of
                    Inl err \<Rightarrow> Inl err
                  | Inr keyTy \<Rightarrow>
                      (case ByNumber (Fields sub) 2 of
                         None \<Rightarrow> Inl Panic
                       | Some valField \<Rightarrow>
                           (case impliedTypeForFieldDesc valField
                                   (path @ [IndexStep DynamicVal]) of
                              Inl err \<Rightarrow> Inl err
                            | Inr valTy \<Rightarrow>
                                Inr (SetValEmpty (cty_Object
                                  (fmupd ''value'' valTy (fmupd ''key'' keyTy fmempty)))))))
               else SetVal res) = Inr V"
            by blast
          from der obtain keyTy valField valTy where
            kd: "impliedTypeForFieldDesc keyField p = Inr keyTy" and
            v: "ByNumber (Fields sub) 2 = Some valField" and
            vd: "impliedTypeForFieldDesc valField (p @ [IndexStep (UnknownVal keyTy)]) =
                Inr valTy" and
            T: "T = cty_Set (cty_Object (fmupd ''value'' valTy (fmupd ''key'' keyTy fmempty)))"
            by (auto simp: impliedTypeForFieldDesc_other_map [OF True sub Some nstr]
                split: sum.splits option.splits)
          let ?O = "cty_Object (fmupd ''value'' valTy (fmupd ''key'' keyTy fmempty))"
          from rm have rawV: "rawV = PMap rawMap" by (simp add: Value_Map_Some)
          with conf sub v have c: "\<forall>e\<in>set rawMap. conforms (snd e) valField" by simp
          have e0: "\<forall>x\<in>set []. ty x = ?O" by simp
          from "4.IH"(2) [OF True sub rm Some nstr, THEN spec, THEN mp, OF v, THEN mp, OF c,
              THEN spec, THEN spec, THEN spec, THEN spec, THEN spec,
              THEN mp, OF loop, THEN mp, OF kd, THEN mp, OF vd, THEN mp, OF e0]
          have all: "\<forall>x\<in>set res. ty x = ?O" .
          show ?thesis
          proof (cases "res = []")
            case True
            with fin v obtain kt vt where
              "impliedTypeForFieldDesc keyField (path @ [IndexStep DynamicVal]) = Inr kt"
              "impliedTypeForFieldDesc valField (path @ [IndexStep DynamicVal]) = Inr vt"
              and V: "V = SetValEmpty (cty_Object (fmupd ''value'' vt (fmupd ''key'' kt fmempty)))"
              by (auto split: sum.splits)
            with kd vd have "kt = keyTy" "vt = valTy"
              by (auto dest: impliedTypeForFieldDesc_unique)
            with V T show ?thesis by (simp add: SetValEmpty_def)
          next
            case False
            with fin have "SetVal res = Inr V" by simp
            with SetVal_same [OF False all] T show ?thesis by auto
          qed
        qed
      qed
    qed
  qed
next
  case (5 valField path elems)
  show ?case by (auto simp: fromProtobufFieldValue_stringRange.simps)
next
  case (6 rawK rawV rest valField path elems)
  show ?case
  proof (intro impI allI)
    fix vf res T p
    assume vf: "valField = Some vf"
      and conf: "\<forall>e\<in>set ((rawK, rawV) # rest). conforms (snd e) vf"
      and enc: "fromProtobufFieldValue_stringRange ((rawK, rawV) # rest) valField path elems =
          Inr res"
      and der: "impliedTypeForFieldDesc vf p = Inr T"
      and el: "\<forall>x\<in>fmran' elems. ty x = T"
    from enc vf obtain key ev where
      key: "MapKey_String rawK = Some key" and
      ev: "fromProtobufFieldValue rawV vf (path @ [IndexStep (StringVal key)]) = Inr ev" and
      er: "fromProtobufFieldValue_stringRange rest valField path (fmupd key ev elems) = Inr res"
      by (auto simp: fromProtobufFieldValue_stringRange.simps split: option.splits sum.splits)
    from conf have c1: "conforms rawV vf" and c2: "\<forall>e\<in>set rest. conforms (snd e) vf"
      by simp_all
    from "6.IH"(1) [OF vf key, rule_format, OF c1 ev der] have "ty ev = T" .
    with el have el': "\<forall>x\<in>fmran' (fmupd key ev elems). ty x = T"
      by (auto dest: fmran'_fmupd)
    from "6.IH"(2) [OF vf key ev, THEN spec, THEN mp, OF vf, THEN mp, OF c2,
        THEN spec, THEN spec, THEN spec, THEN mp, OF er, THEN mp, OF der, THEN mp, OF el']
    show "\<forall>x\<in>fmran' res. ty x = T" .
  qed
next
  case (7 keyField valField path elems)
  show ?case by (auto simp: fromProtobufFieldValue_otherRange.simps)
next
  case (8 rawK rawV rest keyField valField path elems)
  show ?case
  proof (intro impI allI)
    fix vf res K V p1 p2
    let ?O = "cty_Object (fmupd ''value'' V (fmupd ''key'' K fmempty))"
    assume vf: "valField = Some vf"
      and conf: "\<forall>e\<in>set ((rawK, rawV) # rest). conforms (snd e) vf"
      and enc: "fromProtobufFieldValue_otherRange ((rawK, rawV) # rest) keyField valField
          path elems = Inr res"
      and kd: "impliedTypeForFieldDesc keyField p1 = Inr K"
      and vd: "impliedTypeForFieldDesc vf p2 = Inr V"
      and el: "\<forall>x\<in>set elems. ty x = ?O"
    from enc vf obtain ek ev where
      ek: "fromProtobufFieldValue (MapKey_Value rawK) keyField (path @ [IndexStep DynamicVal]) =
          Inr ek" and
      ev: "fromProtobufFieldValue rawV vf (path @ [IndexStep DynamicVal]) = Inr ev" and
      er: "fromProtobufFieldValue_otherRange rest keyField valField path
          (elems @ [ObjectVal (fmupd ''value'' ev (fmupd ''key'' ek fmempty))]) = Inr res"
      by (auto simp: fromProtobufFieldValue_otherRange.simps split: option.splits sum.splits)
    from conf have c1: "conforms rawV vf" and c2: "\<forall>e\<in>set rest. conforms (snd e) vf"
      by simp_all
    from "8.IH"(1) [rule_format, OF conforms_MapKey_Value ek kd] have tk: "ty ek = K" .
    from "8.IH"(2) [OF ek vf, rule_format, OF c1 ev vd] have tv: "ty ev = V" .
    from el tk tv
    have el': "\<forall>x\<in>set (elems @ [ObjectVal (fmupd ''value'' ev (fmupd ''key'' ek fmempty))]).
        ty x = ?O" by (simp add: fmmap_fmupd)
    from "8.IH"(3) [OF ek vf ev, THEN spec, THEN mp, OF vf, THEN mp, OF c2,
        THEN spec, THEN spec, THEN spec, THEN spec, THEN spec,
        THEN mp, OF er, THEN mp, OF kd, THEN mp, OF vd, THEN mp, OF el']
    show "\<forall>x\<in>set res. ty x = ?O" .
  qed
next
  case (9 i field path elems)
  show ?case by (auto simp: fromProtobufFieldValue_listLoop.simps)
next
  case (10 rawEV rest i field path elems)
  show ?case
  proof (intro impI allI)
    fix res B p
    assume conf: "\<forall>x\<in>set (rawEV # rest). conforms x field"
      and enc: "fromProtobufFieldValue_listLoop (rawEV # rest) i field path elems = Inr res"
      and kd: "impliedTypeForFieldKind field p = Inr B"
      and el: "\<forall>x\<in>set elems. ty x = B"
    from enc obtain ev where
      ev: "fromProtobufFieldKindValue rawEV field
          (path @ [IndexStep (NumberIntVal (of_nat i))]) = Inr ev" and
      er: "fromProtobufFieldValue_listLoop rest (Suc i) field path (elems @ [ev]) = Inr res"
      by (auto simp: fromProtobufFieldValue_listLoop.simps split: sum.splits)
    from conf have c1: "conforms rawEV field" and c2: "\<forall>x\<in>set rest. conforms x field"
      by simp_all
    from "10.IH"(1) [rule_format, OF c1 ev kd] have "ty ev = B" .
    with el have el': "\<forall>x\<in>set (elems @ [ev]). ty x = B" by simp
    from "10.IH"(2) [OF ev, THEN mp, OF c2, THEN spec, THEN spec, THEN spec,
        THEN mp, OF er, THEN mp, OF kd, THEN mp, OF el']
    show "\<forall>x\<in>set res. ty x = B" .
  qed
next
  case (11 rawV field path)
  show ?case
  proof (intro impI allI)
    fix V T p
    assume conf: "conforms rawV field"
      and enc: "fromProtobufFieldKindValue rawV field path = Inr V"
      and kd: "impliedTypeForFieldKind field p = Inr T"
    show "ty V = T"
    proof (cases "Kind field \<in> {MessageKind, GroupKind}")
      case True
      then have k: "Kind field \<noteq> BoolKind"
        "Kind field \<notin> {Int32Kind, Sint32Kind, Sfixed32Kind, Int64Kind, Sint64Kind,
                Sfixed64Kind}"
        "Kind field \<notin> {Uint32Kind, Fixed32Kind, Uint64Kind, Fixed64Kind}"
        "Kind field \<notin> {FloatKind, DoubleKind}" "Kind field \<noteq> StringKind"
        "Kind field \<noteq> BytesKind" "Kind field \<noteq> EnumKind" by auto
      from enc True obtain sub where
        vm: "Value_Message rawV = Some sub" and
        es: "fromProtobufMessage sub path = Inr V"
        by (cases "Value_Message rawV") (simp_all add: fromProtobufFieldKindValue_Message)
      from vm have "rawV = PMessage sub" by (simp add: Value_Message_Some)
      with conf have m: "Message field = Some (Descriptor sub)" and cs: "conforms_message sub"
        by simp_all
      from kd True m have "impliedTypeForMessageDesc (Descriptor sub) p = Inr T"
        by (simp add: impliedTypeForFieldKind_Message)
      from "11.IH" [OF k True vm, rule_format, OF cs es this] show ?thesis .
    next
      case False
      from False enc kd show ?thesis by (rule scalar_kind_type)
    qed
  qed
qed


text \<open>
  Claim C1. For a message instance that conforms to its descriptor, when
  the encoder succeeds with a value and the deriver succeeds on the
  descriptor with a type, the type of the value is that type.
\<close>

theorem encoded_value_has_implied_type:
  assumes "conforms_message msg"
    and "FromProtobufMessage msg = Inr V"
    and "ImpliedTypeForMessageDesc (Descriptor msg) = Inr T"
  shows "ty V = T"
  using encoder_types(1) [of msg "[]"] assms
  unfolding FromProtobufMessage_def ImpliedTypeForMessageDesc_def by blast


subsection \<open>Evaluating the encoder on an instance\<close>

lemmas encoder_eval =
  fromProtobufMessage.simps fromProtobufMessage_loop.simps fromProtobufFieldValue.simps
  fromProtobufFieldValue_stringRange.simps fromProtobufFieldValue_otherRange.simps
  fromProtobufFieldValue_listLoop.simps
  fromProtobufFieldKindValue_Bool fromProtobufFieldKindValue_Int
  fromProtobufFieldKindValue_Uint fromProtobufFieldKindValue_Float
  fromProtobufFieldKindValue_String fromProtobufFieldKindValue_Bytes
  fromProtobufFieldKindValue_Enum fromProtobufFieldKindValue_Message
  impliedTypeForMessageDesc.simps impliedTypeForMessageDesc_loop.simps
  impliedTypeForFieldDesc.simps impliedTypeForFieldKind.simps
  Get_def Has_def Default_def IsMap_def IsList_def
  Value_Bool_def Value_Int_def Value_Uint_def Value_Float_def Value_String_def
  Value_Bytes_def Value_Enum_def Value_Message_def Value_List_def Value_Map_def
  MapKey_String_def MapKey_Value_def

lemma WithRepeated_msg_conforms: "conforms_message WithRepeated_msg"
  by (simp add: WithRepeated_msg_def WithRepeated_desc_def mapField_def mapEntry_def
      scalarField_def Nested_desc_def NestedValue_def)

lemma WithRepeated_type:
  "ImpliedTypeForMessageDesc WithRepeated_desc = Inr (cty_Object
     (fmupd ''t_map_number_message'' (cty_Set (cty_Object
        (fmupd ''value'' (cty_Object (fmupd ''t_nested_field'' cty_String fmempty))
          (fmupd ''key'' cty_Number fmempty))))
     (fmupd ''t_map_string_message''
        (cty_Map (cty_Object (fmupd ''t_nested_field'' cty_String fmempty)))
     (fmupd ''t_map_number_bool'' (cty_Set (cty_Object
        (fmupd ''value'' cty_Bool (fmupd ''key'' cty_Number fmempty))))
     (fmupd ''t_map_string_bool'' (cty_Map cty_Bool)
     (fmupd ''t_message''
        (cty_List (cty_Object (fmupd ''t_nested_field'' cty_String fmempty)))
     (fmupd ''t_strings'' (cty_List cty_String) fmempty)))))))"
  by (simp add: ImpliedTypeForMessageDesc_def WithRepeated_desc_def mapField_def mapEntry_def
      scalarField_def Nested_desc_def NestedValue_def encoder_eval)


lemmas cty_eval =
  NullVal_def UnknownVal_def DynamicVal_def cty_True_def cty_False_def NumberIntVal_def
  NumberUIntVal_def NumberFloatVal_def StringVal_def ObjectVal_def ListVal_def
  ListValEmpty_def SetVal_def SetValEmpty_def MapValEmpty_def fmmap_fmupd

lemma MapVal_string_bool:
  "MapVal (fmupd ''b'' (Value cty_Bool (RBool False))
     (fmupd ''a'' (Value cty_Bool (RBool True)) fmempty)) =
   Inr (Value (cty_Map cty_Bool)
     (RMap (fmupd ''b'' (RBool False) (fmupd ''a'' (RBool True) fmempty))))"
  by (subst MapVal_same [where T = cty_Bool])
    (auto simp: fmlookup_ran'_iff fmmap_fmupd split: if_splits)

lemma WithRepeated_value:
  "FromProtobufMessage WithRepeated_msg = Inr (Value
     (cty_Object
     (fmupd ''t_map_number_message'' (cty_Set (cty_Object
        (fmupd ''value'' (cty_Object (fmupd ''t_nested_field'' cty_String fmempty))
          (fmupd ''key'' cty_Number fmempty))))
     (fmupd ''t_map_string_message''
        (cty_Map (cty_Object (fmupd ''t_nested_field'' cty_String fmempty)))
     (fmupd ''t_map_number_bool'' (cty_Set (cty_Object
        (fmupd ''value'' cty_Bool (fmupd ''key'' cty_Number fmempty))))
     (fmupd ''t_map_string_bool'' (cty_Map cty_Bool)
     (fmupd ''t_message''
        (cty_List (cty_Object (fmupd ''t_nested_field'' cty_String fmempty)))
     (fmupd ''t_strings'' (cty_List cty_String) fmempty)))))))
     (RObject
     (fmupd ''t_map_number_message'' (RSet {||})
     (fmupd ''t_map_string_message'' (RMap fmempty)
     (fmupd ''t_map_number_bool'' (RSet
        {|RObject (fmupd ''value'' (RBool True) (fmupd ''key'' (RNumber (NumFinite 1)) fmempty)),
          RObject (fmupd ''value'' (RBool False) (fmupd ''key'' (RNumber (NumFinite 2)) fmempty))|})
     (fmupd ''t_map_string_bool''
        (RMap (fmupd ''b'' (RBool False) (fmupd ''a'' (RBool True) fmempty)))
     (fmupd ''t_message'' (RList [RObject (fmupd ''t_nested_field'' (RString []) fmempty)])
     (fmupd ''t_strings'' (RList [RString ''hello'', RString ''world'']) fmempty))))))))"
  by (simp add: FromProtobufMessage_def WithRepeated_msg_def WithRepeated_desc_def
      mapField_def mapEntry_def scalarField_def Nested_desc_def NestedValue_def
      encoder_eval cty_eval MapVal_string_bool)

theorem encoded_value_has_implied_type_witness:
  "conforms_message WithRepeated_msg \<and>
   (\<exists>V T. FromProtobufMessage WithRepeated_msg = Inr V \<and>
          ImpliedTypeForMessageDesc (Descriptor WithRepeated_msg) = Inr T \<and> ty V = T \<and>
          T = cty_Object
     (fmupd ''t_map_number_message'' (cty_Set (cty_Object
        (fmupd ''value'' (cty_Object (fmupd ''t_nested_field'' cty_String fmempty))
          (fmupd ''key'' cty_Number fmempty))))
     (fmupd ''t_map_string_message''
        (cty_Map (cty_Object (fmupd ''t_nested_field'' cty_String fmempty)))
     (fmupd ''t_map_number_bool'' (cty_Set (cty_Object
        (fmupd ''value'' cty_Bool (fmupd ''key'' cty_Number fmempty))))
     (fmupd ''t_map_string_bool'' (cty_Map cty_Bool)
     (fmupd ''t_message''
        (cty_List (cty_Object (fmupd ''t_nested_field'' cty_String fmempty)))
     (fmupd ''t_strings'' (cty_List cty_String) fmempty)))))))"
proof -
  have d: "Descriptor WithRepeated_msg = WithRepeated_desc"
    by (simp add: WithRepeated_msg_def)
  from encoded_value_has_implied_type [OF WithRepeated_msg_conforms WithRepeated_value]
    WithRepeated_type WithRepeated_msg_conforms WithRepeated_value
  show ?thesis unfolding d by blast
qed



section \<open>Unset fields\<close>

lemma GetAttr_ObjectVal [simp]: "GetAttr (ObjectVal attrs) name = fmlookup attrs name"
  by (cases "fmlookup attrs name") (simp_all add: GetAttr_def ObjectVal_def)

lemma encoder_loop_attributes:
  "fromProtobufMessage_loop msg fields path attrs = Inr V \<Longrightarrow>
   \<exists>attrs'. V = ObjectVal attrs' \<and>
     (\<forall>name. name \<notin> set (map Name fields) \<longrightarrow> fmlookup attrs' name = fmlookup attrs name) \<and>
     (distinct (map Name fields) \<longrightarrow>
        (\<forall>f\<in>set fields. \<exists>x. fmlookup attrs' (Name f) = Some x \<and>
           (if HasPresence f \<and> \<not> Has msg f
            then \<exists>T. impliedTypeForFieldDesc f (path @ [GetAttrStep (Name f)]) = Inr T \<and>
                     x = NullVal T
            else fromProtobufFieldValue (Get msg f) f (path @ [GetAttrStep (Name f)]) = Inr x)))"
proof (induction fields arbitrary: attrs)
  case Nil
  then show ?case by (auto simp: fromProtobufMessage_loop.simps)
next
  case (Cons field rest)
  let ?p = "path @ [GetAttrStep (Name field)]"
  from Cons.prems obtain x where
    x: "if HasPresence field \<and> \<not> Has msg field
        then \<exists>T. impliedTypeForFieldDesc field ?p = Inr T \<and> x = NullVal T
        else fromProtobufFieldValue (Get msg field) field ?p = Inr x" and
    r: "fromProtobufMessage_loop msg rest path (fmupd (Name field) x attrs) = Inr V"
    by (cases "HasPresence field \<and> \<not> Has msg field")
      (auto simp: fromProtobufMessage_loop.simps split: sum.splits)
  from Cons.IH [OF r] obtain attrs' where
    V: "V = ObjectVal attrs'" and
    keep: "\<forall>name. name \<notin> set (map Name rest) \<longrightarrow>
       fmlookup attrs' name = fmlookup (fmupd (Name field) x attrs) name" and
    each: "distinct (map Name rest) \<longrightarrow>
        (\<forall>f\<in>set rest. \<exists>x. fmlookup attrs' (Name f) = Some x \<and>
           (if HasPresence f \<and> \<not> Has msg f
            then \<exists>T. impliedTypeForFieldDesc f (path @ [GetAttrStep (Name f)]) = Inr T \<and>
                     x = NullVal T
            else fromProtobufFieldValue (Get msg f) f (path @ [GetAttrStep (Name f)]) = Inr x))"
    by blast
  have "\<forall>name. name \<notin> set (map Name (field # rest)) \<longrightarrow>
      fmlookup attrs' name = fmlookup attrs name"
    using keep by auto
  moreover have "distinct (map Name (field # rest)) \<longrightarrow>
        (\<forall>f\<in>set (field # rest). \<exists>x. fmlookup attrs' (Name f) = Some x \<and>
           (if HasPresence f \<and> \<not> Has msg f
            then \<exists>T. impliedTypeForFieldDesc f (path @ [GetAttrStep (Name f)]) = Inr T \<and>
                     x = NullVal T
            else fromProtobufFieldValue (Get msg f) f (path @ [GetAttrStep (Name f)]) = Inr x))"
  proof (intro impI ballI)
    fix g
    assume dist: "distinct (map Name (field # rest))" and g: "g \<in> set (field # rest)"
    show "\<exists>x. fmlookup attrs' (Name g) = Some x \<and>
           (if HasPresence g \<and> \<not> Has msg g
            then \<exists>T. impliedTypeForFieldDesc g (path @ [GetAttrStep (Name g)]) = Inr T \<and>
                     x = NullVal T
            else fromProtobufFieldValue (Get msg g) g (path @ [GetAttrStep (Name g)]) = Inr x)"
    proof (cases "g = field")
      case True
      from dist have "Name field \<notin> set (map Name rest)" by simp
      with keep have "fmlookup attrs' (Name field) = Some x" by simp
      with x True show ?thesis by blast
    next
      case False
      with g dist each show ?thesis by simp
    qed
  qed
  ultimately show ?case using V by blast
qed

lemma Default_singular:
  assumes "Cardinality f \<noteq> Repeated"
  shows "Kind f = StringKind \<Longrightarrow> Default f = PString []"
    and "Kind f = BoolKind \<Longrightarrow> Default f = PBool False"
    and "Kind f \<in> {Int32Kind, Sint32Kind, Sfixed32Kind} \<Longrightarrow> Default f = PInt32 0"
    and "Kind f \<in> {Int64Kind, Sint64Kind, Sfixed64Kind} \<Longrightarrow> Default f = PInt64 0"
    and "Kind f \<in> {Uint32Kind, Fixed32Kind} \<Longrightarrow> Default f = PUint32 0"
    and "Kind f \<in> {Uint64Kind, Fixed64Kind} \<Longrightarrow> Default f = PUint64 0"
    and "Kind f = FloatKind \<Longrightarrow> Default f = PFloat32 (FloatFinite 0)"
    and "Kind f = DoubleKind \<Longrightarrow> Default f = PFloat64 (FloatFinite 0)"
  using assms by (auto simp: Default_def IsMap_def IsList_def)

lemma zero_value_encoding:
  assumes s: "Cardinality f \<noteq> Repeated"
  shows "Kind f = StringKind \<Longrightarrow> fromProtobufFieldValue (Default f) f p = Inr (StringVal [])"
    and "Kind f = BoolKind \<Longrightarrow> fromProtobufFieldValue (Default f) f p = Inr cty_False"
    and "Kind f \<in> numericKinds \<Longrightarrow>
      fromProtobufFieldValue (Default f) f p = Inr (Value cty_Number (RNumber (NumFinite 0)))"
proof -
  from s have n: "\<not> IsMap f" "\<not> IsList f" by (simp_all add: IsMap_def IsList_def)
  show "Kind f = StringKind \<Longrightarrow> fromProtobufFieldValue (Default f) f p = Inr (StringVal [])"
    using n by (simp add: fromProtobufFieldValue_singular fromProtobufFieldKindValue_String
        Default_singular [OF s] Value_String_def)
  show "Kind f = BoolKind \<Longrightarrow> fromProtobufFieldValue (Default f) f p = Inr cty_False"
    using n by (simp add: fromProtobufFieldValue_singular fromProtobufFieldKindValue_Bool
        Default_singular [OF s] Value_Bool_def)
  assume "Kind f \<in> numericKinds"
  then consider "Kind f \<in> {Int32Kind, Sint32Kind, Sfixed32Kind}"
    | "Kind f \<in> {Int64Kind, Sint64Kind, Sfixed64Kind}"
    | "Kind f \<in> {Uint32Kind, Fixed32Kind}" | "Kind f \<in> {Uint64Kind, Fixed64Kind}"
    | "Kind f = FloatKind" | "Kind f = DoubleKind"
    by (auto simp: numericKinds_def)
  then show "fromProtobufFieldValue (Default f) f p =
      Inr (Value cty_Number (RNumber (NumFinite 0)))"
  proof cases
    case 1
    then have "Kind f \<in> {Int32Kind, Sint32Kind, Sfixed32Kind, Int64Kind, Sint64Kind,
        Sfixed64Kind}" by auto
    with 1 n show ?thesis
      by (simp add: fromProtobufFieldValue_singular fromProtobufFieldKindValue_Int
          Default_singular(3) [OF s] Value_Int_def NumberIntVal_def)
  next
    case 2
    then have "Kind f \<in> {Int32Kind, Sint32Kind, Sfixed32Kind, Int64Kind, Sint64Kind,
        Sfixed64Kind}" by auto
    with 2 n show ?thesis
      by (simp add: fromProtobufFieldValue_singular fromProtobufFieldKindValue_Int
          Default_singular(4) [OF s] Value_Int_def NumberIntVal_def)
  next
    case 3
    then have "Kind f \<in> {Uint32Kind, Fixed32Kind, Uint64Kind, Fixed64Kind}" by auto
    with 3 n show ?thesis
      by (simp add: fromProtobufFieldValue_singular fromProtobufFieldKindValue_Uint
          Default_singular(5) [OF s] Value_Uint_def NumberUIntVal_def)
  next
    case 4
    then have "Kind f \<in> {Uint32Kind, Fixed32Kind, Uint64Kind, Fixed64Kind}" by auto
    with 4 n show ?thesis
      by (simp add: fromProtobufFieldValue_singular fromProtobufFieldKindValue_Uint
          Default_singular(6) [OF s] Value_Uint_def NumberUIntVal_def)
  next
    case 5
    with n show ?thesis
      by (simp add: fromProtobufFieldValue_singular fromProtobufFieldKindValue_Float
          Default_singular(7) [OF s] Value_Float_def NumberFloatVal_def)
  next
    case 6
    with n show ?thesis
      by (simp add: fromProtobufFieldValue_singular fromProtobufFieldKindValue_Float
          Default_singular(8) [OF s] Value_Float_def NumberFloatVal_def)
  qed
qed


lemma WithOneOf_value:
  "FromProtobufMessage WithOneOf_msg =
     Inr (ObjectVal (fmupd ''b'' (StringVal ''boop'') (fmupd ''a'' (NullVal cty_String)
       (fmupd ''outside'' (StringVal ''hello'') fmempty))))"
  by (simp add: FromProtobufMessage_def WithOneOf_msg_def WithOneOf_desc_def scalarField_def
      encoder_eval)

text \<open>
  Claim C5, amended. When the encoder succeeds on a message whose field
  names are distinct: a field with presence tracking that is unset has the
  null value of its derived type as its attribute; a singular field
  without presence tracking that is unset has the zero value of its kind,
  the empty string for the string kind, the number zero for the numeric
  kinds and false for the boolean kind. The instance of \<^verbatim>\<open>WithOneOf\<close> with
  \<^verbatim>\<open>b\<close> set to "boop" and \<^verbatim>\<open>outside\<close> set to "hello" is encoded as the
  object with \<^verbatim>\<open>a\<close> null, \<^verbatim>\<open>b\<close> "boop" and \<^verbatim>\<open>outside\<close> "hello".
\<close>

theorem presence_policy:
  "(fromProtobufMessage msg path = Inr V \<and> distinct (map Name (Fields (Descriptor msg))) \<and>
    f \<in> set (Fields (Descriptor msg)) \<longrightarrow>
      (HasPresence f \<and> \<not> Has msg f \<longrightarrow>
         (\<exists>T. impliedTypeForFieldDesc f (path @ [GetAttrStep (Name f)]) = Inr T \<and>
              GetAttr V (Name f) = Some (NullVal T))) \<and>
      (\<not> HasPresence f \<and> Cardinality f \<noteq> Repeated \<and> Get msg f = Default f \<longrightarrow>
         (Kind f = StringKind \<longrightarrow> GetAttr V (Name f) = Some (StringVal [])) \<and>
         (Kind f \<in> numericKinds \<longrightarrow>
            GetAttr V (Name f) = Some (Value cty_Number (RNumber (NumFinite 0)))) \<and>
         (Kind f = BoolKind \<longrightarrow> GetAttr V (Name f) = Some cty_False))) \<and>
   FromProtobufMessage WithOneOf_msg =
     Inr (ObjectVal (fmupd ''b'' (StringVal ''boop'') (fmupd ''a'' (NullVal cty_String)
       (fmupd ''outside'' (StringVal ''hello'') fmempty))))"
proof (intro conjI impI)
  show "FromProtobufMessage WithOneOf_msg =
     Inr (ObjectVal (fmupd ''b'' (StringVal ''boop'') (fmupd ''a'' (NullVal cty_String)
       (fmupd ''outside'' (StringVal ''hello'') fmempty))))"
    by (rule WithOneOf_value)
next
  assume a: "fromProtobufMessage msg path = Inr V \<and>
    distinct (map Name (Fields (Descriptor msg))) \<and> f \<in> set (Fields (Descriptor msg))"
  then have "fromProtobufMessage_loop msg (Fields (Descriptor msg)) path fmempty = Inr V"
    by (simp add: fromProtobufMessage.simps)
  from encoder_loop_attributes [OF this] a obtain attrs' x where
    V: "V = ObjectVal attrs'" and
    x: "fmlookup attrs' (Name f) = Some x" and
    xv: "if HasPresence f \<and> \<not> Has msg f
         then \<exists>T. impliedTypeForFieldDesc f (path @ [GetAttrStep (Name f)]) = Inr T \<and>
                  x = NullVal T
         else fromProtobufFieldValue (Get msg f) f (path @ [GetAttrStep (Name f)]) = Inr x"
    by blast
  {
    assume "HasPresence f \<and> \<not> Has msg f"
    with xv V x
    show "\<exists>T. impliedTypeForFieldDesc f (path @ [GetAttrStep (Name f)]) = Inr T \<and>
              GetAttr V (Name f) = Some (NullVal T)"
      by auto
  }
  {
    assume b: "\<not> HasPresence f \<and> Cardinality f \<noteq> Repeated \<and> Get msg f = Default f"
    with xv have e: "fromProtobufFieldValue (Default f) f (path @ [GetAttrStep (Name f)]) = Inr x"
      by simp
    from b have s: "Cardinality f \<noteq> Repeated" by simp
    {
      assume "Kind f = StringKind"
      with e zero_value_encoding(1) [OF s] V x
      show "GetAttr V (Name f) = Some (StringVal [])" by simp
    }
    {
      assume "Kind f \<in> numericKinds"
      with e zero_value_encoding(3) [OF s] V x
      show "GetAttr V (Name f) = Some (Value cty_Number (RNumber (NumFinite 0)))" by simp
    }
    {
      assume "Kind f = BoolKind"
      with e zero_value_encoding(2) [OF s] V x
      show "GetAttr V (Name f) = Some cty_False" by simp
    }
  }
qed

lemma WithOneOf_b_only:
  "fromProtobufMessage (Msg WithOneOf_desc [(3, PString ''boop'')]) [] =
     Inr (ObjectVal (fmupd ''b'' (StringVal ''boop'') (fmupd ''a'' (NullVal cty_String)
       (fmupd ''outside'' (StringVal []) fmempty))))"
  by (simp add: WithOneOf_desc_def scalarField_def encoder_eval)

theorem presence_policy_witness:
  "GetAttr (ObjectVal (fmupd ''b'' (StringVal ''boop'') (fmupd ''a'' (NullVal cty_String)
       (fmupd ''outside'' (StringVal []) fmempty)))) ''a'' = Some (NullVal cty_String) \<and>
   GetAttr (ObjectVal (fmupd ''b'' (StringVal ''boop'') (fmupd ''a'' (NullVal cty_String)
       (fmupd ''outside'' (StringVal []) fmempty)))) ''outside'' = Some (StringVal [])"
proof -
  let ?m = "Msg WithOneOf_desc [(3, PString ''boop'')]"
  let ?V = "ObjectVal (fmupd ''b'' (StringVal ''boop'') (fmupd ''a'' (NullVal cty_String)
       (fmupd ''outside'' (StringVal []) fmempty)))"
  let ?a = "FieldDesc ''a'' 2 StringKind Optional True (Some ''t_oneof'') None None"
  let ?o = "scalarField ''outside'' 1 StringKind"
  have d: "distinct (map Name (Fields (Descriptor ?m)))"
    by (simp add: WithOneOf_desc_def scalarField_def)
  have a: "?a \<in> set (Fields (Descriptor ?m))" "HasPresence ?a \<and> \<not> Has ?m ?a"
    by (simp_all add: WithOneOf_desc_def Has_def)
  have o: "?o \<in> set (Fields (Descriptor ?m))"
    "\<not> HasPresence ?o \<and> Cardinality ?o \<noteq> Repeated \<and> Get ?m ?o = Default ?o"
    "Kind ?o = StringKind"
    by (simp_all add: WithOneOf_desc_def scalarField_def Get_def)
  from presence_policy [of ?m "[]" ?V ?a] WithOneOf_b_only d a
  obtain T where "impliedTypeForFieldDesc ?a ([] @ [GetAttrStep (Name ?a)]) = Inr T"
    "GetAttr ?V (Name ?a) = Some (NullVal T)" by blast
  then have 1: "GetAttr ?V ''a'' = Some (NullVal cty_String)"
    by (simp add: encoder_eval)
  from presence_policy [of ?m "[]" ?V ?o] WithOneOf_b_only d o
  have "GetAttr ?V (Name ?o) = Some (StringVal [])" by blast
  then have 2: "GetAttr ?V ''outside'' = Some (StringVal [])"
    by (simp add: scalarField_def)
  from 1 2 show ?thesis by simp
qed

text \<open>
  The claim as stated, for every field without presence tracking, fails on
  repeated fields: the unset repeated string field of \<^verbatim>\<open>WithRepeated\<close> is
  encoded as the empty list of strings, not as the empty string.
\<close>

lemma WithRepeated_unset:
  "FromProtobufMessage (Msg WithRepeated_desc []) = Inr WithRepeated_unset_value"
  by (simp add: FromProtobufMessage_def WithRepeated_desc_def WithRepeated_unset_value_def
      mapField_def mapEntry_def scalarField_def Nested_desc_def NestedValue_def
      encoder_eval)

theorem presence_policy_counterexample:
  "t_strings \<in> set (Fields WithRepeated_desc) \<and> \<not> HasPresence t_strings \<and>
   Kind t_strings = StringKind \<and> \<not> Has (Msg WithRepeated_desc []) t_strings \<and>
   Get (Msg WithRepeated_desc []) t_strings = Default t_strings \<and>
   FromProtobufMessage (Msg WithRepeated_desc []) = Inr WithRepeated_unset_value \<and>
   GetAttr WithRepeated_unset_value (Name t_strings) = Some (ListValEmpty cty_String) \<and>
   GetAttr WithRepeated_unset_value (Name t_strings) \<noteq> Some (StringVal [])"
  by (simp add: WithRepeated_unset)
    (simp add: t_strings_def WithRepeated_desc_def WithRepeated_unset_value_def Has_def Get_def
      ListValEmpty_def StringVal_def)


end
